theory Spec2Isabelle
  imports Complex_Main
begin

section \<open>Python values read from the JSON export\<close>

text \<open>
  A Python \<open>str\<close> is a sequence of Unicode code points and \<open>len\<close> counts code points,
  so a string is a list of code-point numbers. \<open>lit\<close> turns a literal of the source
  into such a list.
\<close>

type_synonym pystr = "nat list"

definition lit :: "string \<Rightarrow> pystr" where
  "lit s = map of_char s"

text \<open>
  What \<open>json.load\<close> returns: \<open>None\<close>, a bool, an int, a float, a str, a list or a dict.
  A dict is an association list read with \<open>map_of\<close> (the first binding of a key is the
  one the dict holds). A float is carried as its rational value.
\<close>

datatype json =
    JNull
  | JBool bool
  | JInt int
  | JFloat rat
  | JStr pystr
  | JArr "json list"
  | JObj "(pystr \<times> json) list"

datatype error =
    AttributeError
  | TypeError
  | KeyError
  | IndexError
  | ValueError
  | OverflowError
  | IntegrityError
  | InterfaceError

text \<open>Truth value of a Python object, as \<open>or\<close>, \<open>not\<close> and \<open>if\<close> test it.\<close>

fun truthy :: "json \<Rightarrow> bool" where
  "truthy JNull = False"
| "truthy (JBool b) = b"
| "truthy (JInt n) = (n \<noteq> 0)"
| "truthy (JFloat r) = (r \<noteq> 0)"
| "truthy (JStr s) = (s \<noteq> [])"
| "truthy (JArr xs) = (xs \<noteq> [])"
| "truthy (JObj kvs) = (kvs \<noteq> [])"

text \<open>\<open>a or b\<close>\<close>

definition py_or :: "json \<Rightarrow> json \<Rightarrow> json" where
  "py_or a b = (if truthy a then a else b)"

text \<open>\<open>d.get(key, default)\<close> on a dict; \<open>obj.get\<close> on any object: only a dict has the method.\<close>

definition dict_get :: "(pystr \<times> json) list \<Rightarrow> pystr \<Rightarrow> json \<Rightarrow> json" where
  "dict_get kvs k d = (case map_of kvs k of Some v \<Rightarrow> v | None \<Rightarrow> d)"

fun py_get :: "json \<Rightarrow> pystr \<Rightarrow> json \<Rightarrow> error + json" where
  "py_get (JObj kvs) k d = Inr (dict_get kvs k d)"
| "py_get _ k d = Inl AttributeError"

text \<open>
  \<open>obj[0]\<close>: the first element of a list, the first character of a str; an empty
  sequence raises IndexError, a dict (whose keys are strings) KeyError, anything else
  is not subscriptable.
\<close>

fun py_first :: "json \<Rightarrow> error + json" where
  "py_first (JArr []) = Inl IndexError"
| "py_first (JArr (x # xs)) = Inr x"
| "py_first (JStr []) = Inl IndexError"
| "py_first (JStr (c # cs)) = Inr (JStr [c])"
| "py_first (JObj kvs) = Inl KeyError"
| "py_first _ = Inl TypeError"

text \<open>
  \<open>obj[:n]\<close>: a prefix of a str or a list. Slicing a dict raises (TypeError up to
  Python 3.11, KeyError from 3.12 on; TypeError is written here), other values are not
  subscriptable.
\<close>

fun py_prefix :: "nat \<Rightarrow> json \<Rightarrow> error + json" where
  "py_prefix n (JStr s) = Inr (JStr (take n s))"
| "py_prefix n (JArr xs) = Inr (JArr (take n xs))"
| "py_prefix n _ = Inl TypeError"

text \<open>Decimal digits of a number, as \<open>str(n)\<close> prints an int.\<close>

fun digits :: "nat \<Rightarrow> pystr" where
  "digits n = (if n < 10 then [48 + n] else digits (n div 10) @ [48 + n mod 10])"

declare digits.simps [simp del]

definition str_int :: "int \<Rightarrow> pystr" where
  "str_int i = (if i < 0 then 45 # digits (nat (- i)) else digits (nat i))"

section \<open>The Python runtime the scripts run in\<close>

text \<open>
  What the scripts take from outside their own code is a parameter of the model:
  \<^item> \<open>now_ms\<close>: \<open>int(datetime.now().timestamp() * 1000)\<close>, the wall clock in milliseconds;
  \<^item> \<open>fromisoformat_ms\<close>: \<open>int(datetime.fromisoformat(s).timestamp() * 1000)\<close>, with
    \<open>None\<close> when the library raises;
  \<^item> \<open>repr_of\<close>: how an f-string prints a float, a list or a dict;
  \<^item> \<open>uuid4\<close>: the k-th identifier \<open>uuid.uuid4()\<close> hands out in a run;
  \<^item> \<open>shuffle\<close>: the order \<open>random.shuffle\<close> leaves a list in.
\<close>

record py_env =
  now_ms :: int
  fromisoformat_ms :: "pystr \<Rightarrow> int option"
  repr_of :: "json \<Rightarrow> pystr"
  uuid4 :: "nat \<Rightarrow> pystr"
  shuffle :: "json list \<Rightarrow> json list"

text \<open>\<open>f"{v}"\<close>\<close>

fun py_format :: "py_env \<Rightarrow> json \<Rightarrow> pystr" where
  "py_format env (JStr s) = s"
| "py_format env JNull = lit ''None''"
| "py_format env (JBool b) = (if b then lit ''True'' else lit ''False'')"
| "py_format env (JInt i) = str_int i"
| "py_format env v = repr_of env v"

section \<open>Timestamps\<close>

text \<open>\<open>ts.replace('Z', '+00:00')\<close>: every \<open>Z\<close> of the string is replaced.\<close>

definition replace_Z :: "pystr \<Rightarrow> pystr" where
  "replace_Z s = concat (map (\<lambda>c. if c = 90 then lit ''+00:00'' else [c]) s)"

text \<open>The body of the \<open>try\<close>: \<open>replace\<close> is a method of str only.\<close>

fun parse_iso :: "py_env \<Rightarrow> json \<Rightarrow> error + int" where
  "parse_iso env (JStr s) =
     (case fromisoformat_ms env (replace_Z s) of
        None \<Rightarrow> Inl ValueError
      | Some ms \<Rightarrow> Inr ms)"
| "parse_iso env _ = Inl AttributeError"

text \<open>\<open>parse_timestamp\<close>: the bare \<open>except\<close> turns every exception into the clock.\<close>

definition parse_timestamp :: "py_env \<Rightarrow> json \<Rightarrow> int" where
  "parse_timestamp env ts =
     (case parse_iso env ts of
        Inr ms \<Rightarrow> ms
      | Inl e \<Rightarrow> now_ms env)"

section \<open>Exchange titles\<close>

text \<open>
  The characters \<open>str.strip()\<close> removes: those for which \<open>str.isspace\<close> holds.
\<close>

definition is_space :: "nat \<Rightarrow> bool" where
  "is_space c \<longleftrightarrow>
     c \<in> set [9, 10, 11, 12, 13, 28, 29, 30, 31, 32, 133, 160, 5760,
               8192, 8193, 8194, 8195, 8196, 8197, 8198, 8199, 8200, 8201, 8202,
               8232, 8233, 8239, 8287, 12288]"

definition strip :: "pystr \<Rightarrow> pystr" where
  "strip s = rev (dropWhile is_space (rev (dropWhile is_space s)))"

text \<open>\<open>s.split(sep)\<close> for a one-character separator: never an empty list.\<close>

fun split :: "nat \<Rightarrow> pystr \<Rightarrow> pystr list" where
  "split sep [] = [[]]"
| "split sep (c # cs) =
     (if c = sep then [] # split sep cs
      else (case split sep cs of
              [] \<Rightarrow> [[c]]
            | p # ps \<Rightarrow> (c # p) # ps))"

definition item0 :: "'a list \<Rightarrow> error + 'a" where
  "item0 xs = (case xs of [] \<Rightarrow> Inl IndexError | x # _ \<Rightarrow> Inr x)"

text \<open>
  \<open>create_exchange_title\<close>. The argument is whatever the caller extracted; \<open>strip\<close>
  is a method of str only.
\<close>

fun create_exchange_title :: "json \<Rightarrow> error + pystr" where
  "create_exchange_title (JStr human_text) =
     (let clean = strip human_text in
      case item0 (split 10 clean) of
        Inl e \<Rightarrow> Inl e
      | Inr first_line \<Rightarrow>
          if length first_line > 60 then Inr (take 60 first_line @ lit ''...'')
          else Inr first_line)"
| "create_exchange_title _ = Inl AttributeError"

section \<open>Pairing messages into exchanges\<close>

record exchange =
  title :: pystr
  content :: pystr
  created_at :: int

text \<open>
  Line 35, for a message that is a dict:
  \<open>msg.get('text', '') or msg.get('content', [{}])[0].get('text', '') or ''\<close>.
\<close>

definition message_text :: "(pystr \<times> json) list \<Rightarrow> error + json" where
  "message_text msg =
     (let a = dict_get msg (lit ''text'') (JStr []) in
      if truthy a then Inr a
      else
        (case py_first (dict_get msg (lit ''content'') (JArr [JObj []])) of
           Inl e \<Rightarrow> Inl e
         | Inr block \<Rightarrow>
             (case py_get block (lit ''text'') (JStr []) of
                Inl e \<Rightarrow> Inl e
              | Inr t \<Rightarrow> Inr (py_or t (JStr [])))))"

text \<open>
  Lines 45 to 50, the text of the assistant message that follows a human one:
  the flat field, else the first block of a non-empty content list.
\<close>

definition assistant_text_of :: "(pystr \<times> json) list \<Rightarrow> error + json" where
  "assistant_text_of assistant_msg =
     (let assistant_text = py_or (dict_get assistant_msg (lit ''text'') (JStr [])) (JStr []) in
      if \<not> truthy assistant_text \<and> truthy (dict_get assistant_msg (lit ''content'') JNull)
      then
        (case dict_get assistant_msg (lit ''content'') JNull of
           JArr (block # rest) \<Rightarrow> py_get block (lit ''text'') (JStr [])
         | _ \<Rightarrow> Inr assistant_text)
      else Inr assistant_text)"

text \<open>
  Lines 41 to 52: the assistant side of a human message at position \<open>i\<close>, and the
  cursor after it.
\<close>

definition following_assistant :: "json list \<Rightarrow> nat \<Rightarrow> error + (json \<times> nat)" where
  "following_assistant messages i =
     (if i + 1 < length messages then
        (case messages ! (i + 1) of
           JObj assistant_msg \<Rightarrow>
             if dict_get assistant_msg (lit ''sender'') JNull = JStr (lit ''assistant'')
             then
               (case assistant_text_of assistant_msg of
                  Inl e \<Rightarrow> Inl e
                | Inr assistant_text \<Rightarrow> Inr (assistant_text, i + 1))
             else Inr (JStr (lit ''*No response*''), i)
         | _ \<Rightarrow> Inl AttributeError)
      else Inr (JStr (lit ''*No response*''), i))"

text \<open>
  One pass through the body of the \<open>while\<close> loop at cursor \<open>i\<close> (with
  \<open>i < len(messages)\<close>): the exchange appended and the cursor before the final
  \<open>i += 1\<close>.
\<close>

definition pair_step :: "py_env \<Rightarrow> json list \<Rightarrow> nat \<Rightarrow> error + (exchange \<times> nat)" where
  "pair_step env messages i =
     (case messages ! i of
        JObj msg \<Rightarrow>
          (let sender = dict_get msg (lit ''sender'') (JStr []) in
           case message_text msg of
             Inl e \<Rightarrow> Inl e
           | Inr text \<Rightarrow>
               if sender = JStr (lit ''human'') then
                 (let human_text = text;
                      human_time = parse_timestamp env (dict_get msg (lit ''created_at'') (JStr []))
                  in
                  case following_assistant messages i of
                    Inl e \<Rightarrow> Inl e
                  | Inr (assistant_text, i') \<Rightarrow>
                      (case create_exchange_title human_text of
                         Inl e \<Rightarrow> Inl e
                       | Inr t \<Rightarrow>
                           Inr (\<lparr>title = t,
                                 content = lit ''Human: '' @ py_format env human_text @ [10, 10]
                                   @ lit ''Assistant: '' @ py_format env assistant_text,
                                 created_at = human_time\<rparr>, i')))
               else
                 (case (if truthy text then py_prefix 100 text
                        else Inr (JStr (lit ''Response''))) of
                    Inl e \<Rightarrow> Inl e
                  | Inr arg \<Rightarrow>
                      (case create_exchange_title arg of
                         Inl e \<Rightarrow> Inl e
                       | Inr t \<Rightarrow>
                           Inr (\<lparr>title = t,
                                 content = lit ''Assistant: '' @ py_format env text,
                                 created_at =
                                   parse_timestamp env (dict_get msg (lit ''created_at'') (JStr []))\<rparr>,
                                i))))
      | _ \<Rightarrow> Inl AttributeError)"

lemma following_assistant_cursor:
  "following_assistant messages i = Inr (a, i') \<Longrightarrow> i \<le> i' \<and> i' \<le> i + 1"
  by (auto simp: following_assistant_def split: if_splits json.splits sum.splits)

lemma pair_step_cursor:
  "pair_step env messages i = Inr (ex, i') \<Longrightarrow> i \<le> i' \<and> i' \<le> i + 1"
  by (auto simp: pair_step_def Let_def
      split: if_splits json.splits sum.splits prod.splits
      dest: following_assistant_cursor)

text \<open>The \<open>while\<close> loop of \<open>pair_messages\<close>, from cursor \<open>i\<close> with the exchanges so far.\<close>

function pair_loop :: "py_env \<Rightarrow> json list \<Rightarrow> nat \<Rightarrow> exchange list \<Rightarrow> error + exchange list" where
  "pair_loop env messages i exchanges =
     (if i < length messages then
        (case pair_step env messages i of
           Inl e \<Rightarrow> Inl e
         | Inr (ex, i') \<Rightarrow> pair_loop env messages (i' + 1) (exchanges @ [ex]))
      else Inr exchanges)"
  by pat_completeness auto
termination
  by (relation "measure (\<lambda>(env, messages, i, exchanges). length messages - i)")
     (auto dest: pair_step_cursor)

declare pair_loop.simps [simp del]

definition pair_messages :: "py_env \<Rightarrow> json list \<Rightarrow> error + exchange list" where
  "pair_messages env messages = pair_loop env messages 0 []"

section \<open>Notions the claims about the pairer are stated with\<close>

text \<open>A raw message whose sender is exactly \<open>human\<close>: the test of line 37.\<close>

definition is_human :: "json \<Rightarrow> bool" where
  "is_human m =
     (case m of
        JObj msg \<Rightarrow> dict_get msg (lit ''sender'') (JStr []) = JStr (lit ''human'')
      | _ \<Rightarrow> False)"

text \<open>
  The title rule in the words of the specification: the first line of a text is the
  text up to its first newline; a line longer than 60 characters is cut to 60 and
  gets an ellipsis marker.
\<close>

definition spec_first_line :: "pystr \<Rightarrow> pystr" where
  "spec_first_line t = takeWhile (\<lambda>c. c \<noteq> 10) t"

definition spec_title :: "pystr \<Rightarrow> pystr" where
  "spec_title t =
     (let l = spec_first_line t in
      if length l > 60 then take 60 l @ lit ''...'' else l)"

section \<open>SQLite values\<close>

text \<open>
  What a column holds. \<open>bind\<close> is what the \<open>sqlite3\<close> module does with a Python value
  handed over as a statement parameter: \<open>None\<close> is NULL, a bool is an integer, an int
  must fit 64 bits, a str is text, and a list or a dict is refused (InterfaceError; a
  ProgrammingError in later versions of the module).
\<close>

datatype sqlval = SNull | SInt int | SReal rat | SText pystr

fun bind :: "json \<Rightarrow> error + sqlval" where
  "bind JNull = Inr SNull"
| "bind (JBool b) = Inr (SInt (if b then 1 else 0))"
| "bind (JInt i) =
     (if - (2 ^ 63) \<le> i \<and> i < 2 ^ 63 then Inr (SInt i) else Inl OverflowError)"
| "bind (JFloat r) = Inr (SReal r)"
| "bind (JStr s) = Inr (SText s)"
| "bind (JArr xs) = Inl InterfaceError"
| "bind (JObj kvs) = Inl InterfaceError"

text \<open>
  A column declared TEXT stores a number as its text, and a value compared with such a
  column is turned into text first: an integer becomes its decimal digits; the text of a
  floating-point value is the library's own rendering, a parameter \<open>rt\<close> of the model.
  NULL and text are left as they are.
\<close>

type_synonym real_text = "rat \<Rightarrow> pystr"

definition text_affinity :: "real_text \<Rightarrow> sqlval \<Rightarrow> sqlval" where
  "text_affinity rt v =
     (case v of
        SInt i \<Rightarrow> SText (str_int i)
      | SReal r \<Rightarrow> SText (rt r)
      | _ \<Rightarrow> v)"

text \<open>\<open>for x in obj\<close>: the elements of a list, the characters of a str, the keys of a dict.\<close>

fun py_iter :: "json \<Rightarrow> error + json list" where
  "py_iter (JArr xs) = Inr xs"
| "py_iter (JStr s) = Inr (map (\<lambda>c. JStr [c]) s)"
| "py_iter (JObj kvs) = Inr (map (\<lambda>kv. JStr (fst kv)) kvs)"
| "py_iter _ = Inl TypeError"

text \<open>Whether \<open>hash(obj)\<close> returns, as membership in a set needs.\<close>

fun hashable :: "json \<Rightarrow> bool" where
  "hashable (JArr xs) = False"
| "hashable (JObj kvs) = False"
| "hashable _ = True"

section \<open>The pairing importer: \<open>main\<close> of import\_conversations.py\<close>

text \<open>
  Modelled from the spec: the \<open>nodes\<close> table this script writes to belongs to the
  application database, which no source file of the script creates. The spec gives
  \<open>id\<close> as its primary key, of type text: the column stores an identifier as text, and
  an insert whose identifier is not NULL and is already in the table raises
  IntegrityError. The types of the other columns are given nowhere; their values are
  kept as they were bound.

  A row holds the columns the two INSERT statements give different values. The columns
  that get the same constant in both (url, cluster_id, cluster_label, ai_title, tags,
  emoji, is_processed, depth, is_universe, parent_id, is_pinned, last_accessed_at) and
  the two positions, which are floating-point results of \<open>math.cos\<close> and \<open>math.sin\<close>, are
  left out.
\<close>

record prow =
  p_id :: sqlval
  p_type :: pystr
  p_title :: sqlval
  p_content :: pystr
  p_created_at :: int
  p_updated_at :: int
  p_summary :: sqlval
  p_is_item :: int
  p_child_count :: nat
  p_conversation_id :: sqlval
  p_sequence_index :: sqlval

type_synonym pdb = "prow list"

text \<open>
  The statements the script sends, in the order they were executed, each with its
  parameters as they were bound.
\<close>

datatype pstmt =
    P_count_linked
  | P_select_id sqlval
  | P_insert prow
  | P_commit

text \<open>
  A connection: the database as last committed, the database as the open transaction
  sees it, and the statements executed so far.
\<close>

record pconn =
  p_committed :: pdb
  p_working :: pdb
  p_log :: "pstmt list"

definition p_connect :: "pdb \<Rightarrow> pconn" where
  "p_connect db = \<lparr>p_committed = db, p_working = db, p_log = []\<rparr>"

definition p_commit :: "pconn \<Rightarrow> pconn" where
  "p_commit c = c\<lparr>p_committed := p_working c, p_log := p_log c @ [P_commit]\<rparr>"

text \<open>\<open>SELECT COUNT(*) FROM nodes WHERE conversation_id IS NOT NULL\<close>\<close>

definition linked :: "prow \<Rightarrow> bool" where
  "linked r \<longleftrightarrow> p_conversation_id r \<noteq> SNull"

definition p_count_linked :: "pconn \<Rightarrow> nat \<times> pconn" where
  "p_count_linked c = (length (filter linked (p_working c)), c\<lparr>p_log := p_log c @ [P_count_linked]\<rparr>)"

text \<open>
  Modelled from the spec: \<open>SELECT 1 FROM nodes WHERE id = ?\<close> against the text column
  \<open>id\<close> of the application's table. The parameter is compared as text; a comparison
  with NULL is never true.
\<close>

definition p_select_id :: "real_text \<Rightarrow> pconn \<Rightarrow> sqlval \<Rightarrow> bool \<times> pconn" where
  "p_select_id rt c v =
     (text_affinity rt v \<noteq> SNull \<and> text_affinity rt v \<in> p_id ` set (p_working c),
      c\<lparr>p_log := p_log c @ [P_select_id v]\<rparr>)"

text \<open>
  Modelled from the spec: the row as the application's \<open>nodes\<close> table stores it, with
  the identifier as text, and the primary key of that table, which the script's source
  does not declare. An INSERT of an identifier that is not NULL and is in the table
  already raises IntegrityError; any other INSERT appends the row.
\<close>

definition p_stored :: "real_text \<Rightarrow> prow \<Rightarrow> prow" where
  "p_stored rt r = r\<lparr>p_id := text_affinity rt (p_id r)\<rparr>"

definition p_insert :: "real_text \<Rightarrow> pconn \<Rightarrow> prow \<Rightarrow> error + pconn" where
  "p_insert rt c r =
     (if p_id (p_stored rt r) \<noteq> SNull \<and> p_id (p_stored rt r) \<in> p_id ` set (p_working c)
      then Inl IntegrityError
      else Inr (c\<lparr>p_working := p_working c @ [p_stored rt r], p_log := p_log c @ [P_insert r]\<rparr>))"

text \<open>
  \<open>pair_messages(conv.get('chat_messages', []))\<close> for whatever the field holds: the loop
  takes \<open>len\<close> of it and indexes it with integers. A str is indexed by character; a dict
  has no integer key; \<open>None\<close> and numbers have no length.
\<close>

fun pair_messages_any :: "py_env \<Rightarrow> json \<Rightarrow> error + exchange list" where
  "pair_messages_any env (JArr messages) = pair_messages env messages"
| "pair_messages_any env (JStr s) = pair_messages env (map (\<lambda>c. JStr [c]) s)"
| "pair_messages_any env (JObj kvs) = (if kvs = [] then Inr [] else Inl KeyError)"
| "pair_messages_any env _ = Inl TypeError"

definition EXCLUDE_IDS :: "json set" where
  "EXCLUDE_IDS = {JStr (lit ''fb73ed99-5131-4c2c-bd81-4a156634d344'')}"

text \<open>
  Line 96: \<open>[c for c in conversations if c.get('uuid') not in EXCLUDE_IDS]\<close>, over the
  elements of the loaded value.
\<close>

fun exclude :: "json list \<Rightarrow> error + json list" where
  "exclude [] = Inr []"
| "exclude (c # cs) =
     (case c of
        JObj conv \<Rightarrow>
          (let u = dict_get conv (lit ''uuid'') JNull in
           if hashable u then
             (case exclude cs of
                Inl e \<Rightarrow> Inl e
              | Inr rest \<Rightarrow> Inr (if u \<in> EXCLUDE_IDS then rest else c # rest))
           else Inl TypeError)
      | _ \<Rightarrow> Inl AttributeError)"

text \<open>
  Lines 85 to 107: the conversations the run works on. \<open>FILTER_MYCELICA\<close> is
  \<open>False\<close>, so the filter on the name is not applied.
\<close>

definition load_conversations :: "py_env \<Rightarrow> json \<Rightarrow> error + json list" where
  "load_conversations env data =
     (case py_iter data of
        Inl e \<Rightarrow> Inl e
      | Inr cs \<Rightarrow>
          (case exclude cs of
             Inl e \<Rightarrow> Inl e
           | Inr conversations \<Rightarrow> Inr (shuffle env conversations)))"

text \<open>
  Lines 172 to 196: one INSERT per exchange, with \<open>idx\<close> counting from 0. The result
  is the connection and \<open>exchanges_imported\<close>; an exception comes with the connection
  as it was when raised. \<open>MAX_EXCHANGES\<close> is \<open>None\<close>, so neither limit check fires.
\<close>

fun insert_exchanges ::
  "py_env \<Rightarrow> real_text \<Rightarrow> json \<Rightarrow> sqlval \<Rightarrow> nat \<Rightarrow> exchange list \<Rightarrow> pconn \<Rightarrow> nat \<Rightarrow>
   (error \<times> pconn) + (pconn \<times> nat)" where
  "insert_exchanges env rt conv_id cid idx [] c exchanges_imported = Inr (c, exchanges_imported)"
| "insert_exchanges env rt conv_id cid idx (ex # rest) c exchanges_imported =
     (case p_insert rt c
        \<lparr>p_id = SText (py_format env conv_id @ lit ''-ex-'' @ digits idx),
         p_type = lit ''thought'',
         p_title = SText (title ex),
         p_content = content ex,
         p_created_at = created_at ex,
         p_updated_at = created_at ex,
         p_summary = SNull,
         p_is_item = 1,
         p_child_count = 0,
         p_conversation_id = cid,
         p_sequence_index = SInt (int idx)\<rparr> of
        Inl e \<Rightarrow> Inl (e, c)
      | Inr c' \<Rightarrow> insert_exchanges env rt conv_id cid (idx + 1) rest c' (exchanges_imported + 1))"

text \<open>The counters of the run: conversations imported, exchanges imported, skipped.\<close>

record counters =
  conversations_imported :: nat
  exchanges_imported :: nat
  skipped :: nat

text \<open>
  The body of the loop over the conversations, for the conversation at position \<open>i\<close>.
  The default of \<open>conv.get('uuid', str(uuid.uuid4()))\<close> is computed on every pass, so it
  is the \<open>i\<close>-th identifier of the run. First lines 138 to 204, for a conversation that
  is not in the table yet: the exchanges are paired, the container row is inserted,
  then one row per exchange, and every 50th conversation commits.
\<close>

definition insert_conversation ::
  "py_env \<Rightarrow> real_text \<Rightarrow> nat \<Rightarrow> (pystr \<times> json) list \<Rightarrow> json \<Rightarrow> sqlval \<Rightarrow> pconn \<Rightarrow>
   counters \<Rightarrow> (error \<times> pconn) + (pconn \<times> counters)" where
  "insert_conversation env rt i conv conv_id cid c1 n =
     (let created = parse_timestamp env (dict_get conv (lit ''created_at'') (JStr []));
          updated =
            (if truthy (dict_get conv (lit ''updated_at'') JNull)
             then parse_timestamp env (dict_get conv (lit ''updated_at'') (JStr []))
             else created);
          messages = dict_get conv (lit ''chat_messages'') (JArr [])
      in
      case pair_messages_any env messages of
        Inl e \<Rightarrow> Inl (e, c1)
      | Inr exchanges \<Rightarrow>
          (case bind (py_or (dict_get conv (lit ''name'') JNull) (JStr (lit ''Untitled''))) of
             Inl e \<Rightarrow> Inl (e, c1)
           | Inr name \<Rightarrow>
               (case bind (dict_get conv (lit ''summary'') JNull) of
                  Inl e \<Rightarrow> Inl (e, c1)
                | Inr summary \<Rightarrow>
                    (case p_insert rt c1
                       \<lparr>p_id = cid,
                        p_type = lit ''context'',
                        p_title = name,
                        p_content = digits (length exchanges) @ lit '' exchanges'',
                        p_created_at = created,
                        p_updated_at = updated,
                        p_summary = summary,
                        p_is_item = 0,
                        p_child_count = length exchanges,
                        p_conversation_id = SNull,
                        p_sequence_index = SNull\<rparr> of
                       Inl e \<Rightarrow> Inl (e, c1)
                     | Inr c2 \<Rightarrow>
                         (case insert_exchanges env rt conv_id cid 0 exchanges c2
                                 (exchanges_imported n) of
                            Inl x \<Rightarrow> Inl x
                          | Inr (c3, k) \<Rightarrow>
                              Inr (if (i + 1) mod 50 = 0 then p_commit c3 else c3,
                                   n\<lparr>conversations_imported := conversations_imported n + 1,
                                     exchanges_imported := k\<rparr>))))))"

text \<open>
  Lines 130 to 136, and then the rest of the body unless the conversation is skipped.
\<close>

definition import_conv ::
  "py_env \<Rightarrow> real_text \<Rightarrow> nat \<Rightarrow> json \<Rightarrow> pconn \<Rightarrow> counters \<Rightarrow>
   (error \<times> pconn) + (pconn \<times> counters)" where
  "import_conv env rt i c0 c n =
     (case c0 of
        JObj conv \<Rightarrow>
          (let conv_id = dict_get conv (lit ''uuid'') (JStr (uuid4 env i)) in
           case bind conv_id of
             Inl e \<Rightarrow> Inl (e, c)
           | Inr cid \<Rightarrow>
               (case p_select_id rt c cid of
                  (found, c1) \<Rightarrow>
                    if found then Inr (c1, n\<lparr>skipped := skipped n + 1\<rparr>)
                    else insert_conversation env rt i conv conv_id cid c1 n))
      | _ \<Rightarrow> Inl (AttributeError, c))"

text \<open>Lines 129 to 209: the loop over the conversations, from position \<open>i\<close>.\<close>

fun import_loop ::
  "py_env \<Rightarrow> real_text \<Rightarrow> nat \<Rightarrow> json list \<Rightarrow> pconn \<Rightarrow> counters \<Rightarrow>
   (error \<times> pconn) + (pconn \<times> counters)" where
  "import_loop env rt i [] c n = Inr (c, n)"
| "import_loop env rt i (conv # rest) c n =
     (case import_conv env rt i conv c n of
        Inl x \<Rightarrow> Inl x
      | Inr (c', n') \<Rightarrow> import_loop env rt (i + 1) rest c' n')"

text \<open>
  What a run leaves behind: the database file once the process has ended (what was
  committed), the statements it executed, and what it printed last: the warning that
  conversation nodes already exist, with their number, or the summary with the three
  counters; or the exception that ended it.
\<close>

datatype report =
    Skipping_import nat
  | Import_complete nat nat nat

record run =
  final_db :: pdb
  executed :: "pstmt list"
  outcome :: "error + report"

definition main :: "py_env \<Rightarrow> real_text \<Rightarrow> pdb \<Rightarrow> json \<Rightarrow> run" where
  "main env rt db data =
     (case load_conversations env data of
        Inl e \<Rightarrow> \<lparr>final_db = db, executed = [], outcome = Inl e\<rparr>
      | Inr conversations \<Rightarrow>
          (let (existing, c) = p_count_linked (p_connect db) in
           if existing > 0 then
             \<lparr>final_db = p_committed c, executed = p_log c,
              outcome = Inr (Skipping_import existing)\<rparr>
           else
             (case import_loop env rt 0 conversations c
                     \<lparr>conversations_imported = 0, exchanges_imported = 0, skipped = 0\<rparr> of
                Inl (e, c') \<Rightarrow>
                  \<lparr>final_db = p_committed c', executed = p_log c', outcome = Inl e\<rparr>
              | Inr (c', n) \<Rightarrow>
                  \<lparr>final_db = p_committed (p_commit c'), executed = p_log (p_commit c'),
                   outcome = Inr (Import_complete (conversations_imported n)
                                    (exchanges_imported n) (skipped n))\<rparr>)))"

section \<open>The flat importer: import\_test\_data.py\<close>

text \<open>
  A row of \<open>nodes\<close> and a row of \<open>edges\<close>, first as the dict the script builds, with
  Python values (\<open>json node\<close>), then as the row the table stores (\<open>sqlval node\<close>). The
  columns \<open>url\<close> and \<open>label\<close>, always \<open>None\<close>, and the two positions, floating-point
  results of \<open>math.cos\<close> and \<open>math.sin\<close>, are left out. (The divisor \<open>n_convos\<close> of the
  angle is not zero inside the loop, which runs once per conversation.)
\<close>

record 'v node =
  n_id :: 'v
  n_type :: pystr
  n_title :: 'v
  n_content :: 'v
  n_created_at :: int
  n_updated_at :: int
  n_level :: int
  n_parent_id :: 'v
  n_child_count :: nat

record 'v edge =
  e_id :: pystr
  e_source_id :: 'v
  e_target_id :: 'v
  e_type :: pystr
  e_created_at :: int

record fdb =
  nodes :: "sqlval node list"
  edges :: "sqlval edge list"

text \<open>The statements the script sends; an INSERT comes with the row it stored.\<close>

datatype fstmt =
    Delete_edges
  | Delete_nodes
  | Insert_node "sqlval node"
  | Insert_edge "sqlval edge"
  | Commit

text \<open>
  A connection, as for the pairing importer: the database as last committed, as the
  open transaction sees it, and the statements executed so far.
\<close>

record fconn =
  f_committed :: fdb
  f_working :: fdb
  f_log :: "fstmt list"

definition f_connect :: "fdb \<Rightarrow> fconn" where
  "f_connect db = \<lparr>f_committed = db, f_working = db, f_log = []\<rparr>"

definition f_commit :: "fconn \<Rightarrow> fconn" where
  "f_commit c = c\<lparr>f_committed := f_working c, f_log := f_log c @ [Commit]\<rparr>"

text \<open>
  \<open>DELETE FROM edges\<close> and \<open>DELETE FROM nodes\<close>. The connection never turns the
  enforcement of foreign keys on, so deleting nodes touches no other table.
\<close>

definition delete_edges :: "fconn \<Rightarrow> fconn" where
  "delete_edges c = c\<lparr>f_working := (f_working c)\<lparr>edges := []\<rparr>, f_log := f_log c @ [Delete_edges]\<rparr>"

definition delete_nodes :: "fconn \<Rightarrow> fconn" where
  "delete_nodes c = c\<lparr>f_working := (f_working c)\<lparr>nodes := []\<rparr>, f_log := f_log c @ [Delete_nodes]\<rparr>"

text \<open>
  Binding the parameters of the two INSERT statements, in the order of the columns, and
  the row the table stores for them: \<open>init_db\<close> declares \<open>id\<close>, \<open>title\<close>, \<open>content\<close> and
  \<open>parent_id\<close> of \<open>nodes\<close>, and \<open>source_id\<close> and \<open>target_id\<close> of \<open>edges\<close>, as TEXT, so
  a number bound to one of them is stored as its text. The other columns modelled are
  declared INTEGER and get integers, or TEXT and get a str (\<open>type\<close>, the \<open>id\<close> of an
  edge).
\<close>

definition bind_node :: "real_text \<Rightarrow> json node \<Rightarrow> error + sqlval node" where
  "bind_node rt d =
     (case bind (n_id d) of
        Inl e \<Rightarrow> Inl e
      | Inr i \<Rightarrow>
          (case bind (n_title d) of
             Inl e \<Rightarrow> Inl e
           | Inr t \<Rightarrow>
               (case bind (n_content d) of
                  Inl e \<Rightarrow> Inl e
                | Inr ct \<Rightarrow>
                    (case bind (n_parent_id d) of
                       Inl e \<Rightarrow> Inl e
                     | Inr p \<Rightarrow>
                         Inr \<lparr>n_id = text_affinity rt i, n_type = n_type d,
                              n_title = text_affinity rt t, n_content = text_affinity rt ct,
                              n_created_at = n_created_at d, n_updated_at = n_updated_at d,
                              n_level = n_level d, n_parent_id = text_affinity rt p,
                              n_child_count = n_child_count d\<rparr>))))"

definition bind_edge :: "real_text \<Rightarrow> json edge \<Rightarrow> error + sqlval edge" where
  "bind_edge rt d =
     (case bind (e_source_id d) of
        Inl e \<Rightarrow> Inl e
      | Inr s \<Rightarrow>
          (case bind (e_target_id d) of
             Inl e \<Rightarrow> Inl e
           | Inr t \<Rightarrow>
               Inr \<lparr>e_id = e_id d, e_source_id = text_affinity rt s,
                    e_target_id = text_affinity rt t, e_type = e_type d,
                    e_created_at = e_created_at d\<rparr>))"

text \<open>
  One INSERT, under the constraints \<open>init_db\<close> declares: \<open>title\<close> is NOT NULL and \<open>id\<close> is
  the primary key of \<open>nodes\<close> (a NULL identifier is let in, as SQLite does for a primary
  key that is not an integer); \<open>source_id\<close> and \<open>target_id\<close> are NOT NULL and \<open>id\<close> is the
  primary key of \<open>edges\<close>.
\<close>

definition insert_node :: "real_text \<Rightarrow> fconn \<Rightarrow> json node \<Rightarrow> error + fconn" where
  "insert_node rt c d =
     (case bind_node rt d of
        Inl e \<Rightarrow> Inl e
      | Inr r \<Rightarrow>
          if n_title r = SNull then Inl IntegrityError
          else if n_id r \<noteq> SNull \<and> n_id r \<in> n_id ` set (nodes (f_working c))
          then Inl IntegrityError
          else Inr (c\<lparr>f_working := (f_working c)\<lparr>nodes := nodes (f_working c) @ [r]\<rparr>,
                     f_log := f_log c @ [Insert_node r]\<rparr>))"

definition insert_edge :: "real_text \<Rightarrow> fconn \<Rightarrow> json edge \<Rightarrow> error + fconn" where
  "insert_edge rt c d =
     (case bind_edge rt d of
        Inl e \<Rightarrow> Inl e
      | Inr r \<Rightarrow>
          if e_source_id r = SNull \<or> e_target_id r = SNull then Inl IntegrityError
          else if e_id r \<in> e_id ` set (edges (f_working c)) then Inl IntegrityError
          else Inr (c\<lparr>f_working := (f_working c)\<lparr>edges := edges (f_working c) @ [r]\<rparr>,
                     f_log := f_log c @ [Insert_edge r]\<rparr>))"

text \<open>
  \<open>executemany\<close>: one INSERT per dict, in order; the first one that raises ends it,
  with the connection as it is then.
\<close>

fun executemany_nodes ::
  "real_text \<Rightarrow> fconn \<Rightarrow> json node list \<Rightarrow> (error \<times> fconn) + fconn" where
  "executemany_nodes rt c [] = Inr c"
| "executemany_nodes rt c (d # ds) =
     (case insert_node rt c d of
        Inl e \<Rightarrow> Inl (e, c)
      | Inr c' \<Rightarrow> executemany_nodes rt c' ds)"

fun executemany_edges ::
  "real_text \<Rightarrow> fconn \<Rightarrow> json edge list \<Rightarrow> (error \<times> fconn) + fconn" where
  "executemany_edges rt c [] = Inr c"
| "executemany_edges rt c (d # ds) =
     (case insert_edge rt c d of
        Inl e \<Rightarrow> Inl (e, c)
      | Inr c' \<Rightarrow> executemany_edges rt c' ds)"

text \<open>\<open>len(obj)\<close> and \<open>obj += '...'\<close> (a list is extended by the characters).\<close>

fun py_len :: "json \<Rightarrow> error + nat" where
  "py_len (JStr s) = Inr (length s)"
| "py_len (JArr xs) = Inr (length xs)"
| "py_len (JObj kvs) = Inr (length kvs)"
| "py_len _ = Inl TypeError"

fun py_iadd_str :: "json \<Rightarrow> pystr \<Rightarrow> error + json" where
  "py_iadd_str (JStr s) t = Inr (JStr (s @ t))"
| "py_iadd_str (JArr xs) t = Inr (JArr (xs @ map (\<lambda>c. JStr [c]) t))"
| "py_iadd_str _ t = Inl TypeError"

text \<open>
  Line 98: \<open>sum(1 for msg in messages if msg.get('sender') == 'human')\<close>, over the
  elements of \<open>messages\<close>.
\<close>

fun count_human :: "json list \<Rightarrow> error + nat" where
  "count_human [] = Inr 0"
| "count_human (m # rest) =
     (case m of
        JObj msg \<Rightarrow>
          (case count_human rest of
             Inl e \<Rightarrow> Inl e
           | Inr k \<Rightarrow>
               Inr (if dict_get msg (lit ''sender'') JNull = JStr (lit ''human'') then k + 1
                    else k))
      | _ \<Rightarrow> Inl AttributeError)"

text \<open>Lines 128 to 131: the title of a message node, from the message's text.\<close>

definition message_title :: "(pystr \<times> json) list \<Rightarrow> error + json" where
  "message_title msg =
     (case py_prefix 100 (dict_get msg (lit ''text'') (JStr [])) of
        Inl e \<Rightarrow> Inl e
      | Inr text \<Rightarrow>
          (case py_len (dict_get msg (lit ''text'') (JStr [])) of
             Inl e \<Rightarrow> Inl e
           | Inr n \<Rightarrow>
               (case (if n > 100 then py_iadd_str text (lit ''...'') else Inr text) of
                  Inl e \<Rightarrow> Inl e
                | Inr text' \<Rightarrow> Inr (py_or text' (JStr (lit ''Message''))))))"

text \<open>
  Lines 119 to 158: the loop over the messages of one conversation, appending to the
  two lists. The identifier of an edge is the next one \<open>uuid.uuid4()\<close> hands out; the
  script calls it nowhere else, so that is the one numbered by the edges so far.
\<close>

fun message_rows ::
  "py_env \<Rightarrow> json \<Rightarrow> json list \<Rightarrow> json node list \<Rightarrow> json edge list \<Rightarrow>
   error + (json node list \<times> json edge list)" where
  "message_rows env conv_id [] ns es = Inr (ns, es)"
| "message_rows env conv_id (m # rest) ns es =
     (case m of
        JObj msg \<Rightarrow>
          if dict_get msg (lit ''sender'') JNull \<noteq> JStr (lit ''human'')
          then message_rows env conv_id rest ns es
          else
            (case map_of msg (lit ''uuid'') of
               None \<Rightarrow> Inl KeyError
             | Some msg_id \<Rightarrow>
                 (case message_title msg of
                    Inl e \<Rightarrow> Inl e
                  | Inr t \<Rightarrow>
                      message_rows env conv_id rest
                        (ns @ [\<lparr>n_id = msg_id, n_type = lit ''thought'', n_title = t,
                                 n_content = dict_get msg (lit ''text'') JNull,
                                 n_created_at =
                                   parse_timestamp env (dict_get msg (lit ''created_at'') (JStr [])),
                                 n_updated_at =
                                   parse_timestamp env (dict_get msg (lit ''updated_at'') (JStr [])),
                                 n_level = 4, n_parent_id = conv_id, n_child_count = 0\<rparr>])
                        (es @ [\<lparr>e_id = uuid4 env (length es), e_source_id = conv_id,
                                 e_target_id = msg_id, e_type = lit ''contains'',
                                 e_created_at =
                                   parse_timestamp env
                                     (dict_get msg (lit ''created_at'') (JStr []))\<rparr>])))
      | _ \<Rightarrow> Inl AttributeError)"

text \<open>
  Lines 90 to 158: the body of the loop over the conversations. \<open>conv['uuid']\<close> needs a
  dict with that key.
\<close>

definition conv_rows ::
  "py_env \<Rightarrow> json \<Rightarrow> json node list \<Rightarrow> json edge list \<Rightarrow>
   error + (json node list \<times> json edge list)" where
  "conv_rows env c0 ns es =
     (case c0 of
        JObj conv \<Rightarrow>
          (case map_of conv (lit ''uuid'') of
             None \<Rightarrow> Inl KeyError
           | Some conv_id \<Rightarrow>
               (case py_iter (dict_get conv (lit ''chat_messages'') (JArr [])) of
                  Inl e \<Rightarrow> Inl e
                | Inr messages \<Rightarrow>
                    (case count_human messages of
                       Inl e \<Rightarrow> Inl e
                     | Inr child_count \<Rightarrow>
                         message_rows env conv_id messages
                           (ns @ [\<lparr>n_id = conv_id, n_type = lit ''context'',
                                    n_title = py_or (dict_get conv (lit ''name'') JNull)
                                                (JStr (lit ''Untitled'')),
                                    n_content = dict_get conv (lit ''summary'') JNull,
                                    n_created_at =
                                      parse_timestamp env
                                        (dict_get conv (lit ''created_at'') (JStr [])),
                                    n_updated_at =
                                      parse_timestamp env
                                        (dict_get conv (lit ''updated_at'') (JStr [])),
                                    n_level = 3, n_parent_id = JNull,
                                    n_child_count = child_count\<rparr>])
                           es)))
      | _ \<Rightarrow> Inl TypeError)"

text \<open>Lines 82 to 158: the loop over the conversations.\<close>

fun build_rows ::
  "py_env \<Rightarrow> json list \<Rightarrow> json node list \<Rightarrow> json edge list \<Rightarrow>
   error + (json node list \<times> json edge list)" where
  "build_rows env [] ns es = Inr (ns, es)"
| "build_rows env (conv # rest) ns es =
     (case conv_rows env conv ns es of
        Inl e \<Rightarrow> Inl e
      | Inr (ns', es') \<Rightarrow> build_rows env rest ns' es')"

text \<open>
  \<open>import_conversations\<close>: the two DELETEs, the rows built in memory, the nodes
  inserted, then the edges, the commit, and the two lengths returned. When it raises,
  nothing of the call has been committed.
\<close>

definition import_conversations ::
  "py_env \<Rightarrow> real_text \<Rightarrow> fconn \<Rightarrow> json \<Rightarrow> (error + nat \<times> nat) \<times> fconn" where
  "import_conversations env rt conn conversations =
     (let c = delete_nodes (delete_edges conn) in
      case py_len conversations of
        Inl e \<Rightarrow> (Inl e, c)
      | Inr n_convos \<Rightarrow>
          (case py_iter conversations of
             Inl e \<Rightarrow> (Inl e, c)
           | Inr convs \<Rightarrow>
               (case build_rows env convs [] [] of
                  Inl e \<Rightarrow> (Inl e, c)
                | Inr (ns, es) \<Rightarrow>
                    (case executemany_nodes rt c ns of
                       Inl (e, c') \<Rightarrow> (Inl e, c')
                     | Inr c' \<Rightarrow>
                         (case executemany_edges rt c' es of
                            Inl (e, c'') \<Rightarrow> (Inl e, c'')
                          | Inr c'' \<Rightarrow> (Inr (length ns, length es), f_commit c''))))))"

section \<open>Notions the claims about the pairing importer are stated with\<close>

text \<open>
  The rows a run inserted, in order: those of the INSERT statements it executed, with
  the values the script gave them.
\<close>

definition inserted :: "pstmt list \<Rightarrow> prow list" where
  "inserted L = concat (map (\<lambda>s. case s of P_insert r \<Rightarrow> [r] | _ \<Rightarrow> []) L)"

text \<open>A conversation with zero messages: \<open>chat_messages\<close> is missing or the empty list.\<close>

definition zero_messages :: "json \<Rightarrow> bool" where
  "zero_messages c =
     (case c of
        JObj conv \<Rightarrow> dict_get conv (lit ''chat_messages'') (JArr []) = JArr []
      | _ \<Rightarrow> False)"

text \<open>A conversation whose \<open>uuid\<close> is there and is \<open>None\<close> (a JSON \<open>null\<close>).\<close>

definition uuid_is_None :: "json \<Rightarrow> bool" where
  "uuid_is_None c =
     (case c of
        JObj conv \<Rightarrow> map_of conv (lit ''uuid'') = Some JNull
      | _ \<Rightarrow> False)"

text \<open>
  The identifier of the conversation at position \<open>i\<close> of a run: the value under \<open>uuid\<close>,
  or the \<open>i\<close>-th fresh identifier when the key is missing.
\<close>

definition conv_id_of :: "py_env \<Rightarrow> nat \<Rightarrow> (pystr \<times> json) list \<Rightarrow> json" where
  "conv_id_of env i conv = dict_get conv (lit ''uuid'') (JStr (uuid4 env i))"

text \<open>
  The container row of a conversation with identifier \<open>cid\<close> and \<open>n\<close> exchanges: of type
  \<open>context\<close>, not an item, with \<open>conversation_id\<close> NULL.
\<close>

definition is_container :: "sqlval \<Rightarrow> nat \<Rightarrow> prow \<Rightarrow> bool" where
  "is_container cid n r \<longleftrightarrow>
     p_id r = cid \<and> p_type r = lit ''context'' \<and> p_is_item r = 0 \<and>
     p_conversation_id r = SNull \<and> p_sequence_index r = SNull \<and> p_child_count r = n"

text \<open>
  The item row of the \<open>k\<close>-th exchange of the conversation with identifier \<open>cid\<close>
  (\<open>conv_id\<close> before binding): of type \<open>thought\<close>, an item, with \<open>cid\<close> as its
  \<open>conversation_id\<close> and \<open>k\<close> as its \<open>sequence_index\<close>.
\<close>

definition is_item :: "py_env \<Rightarrow> json \<Rightarrow> sqlval \<Rightarrow> nat \<Rightarrow> exchange \<Rightarrow> prow \<Rightarrow> bool" where
  "is_item env conv_id cid k ex r \<longleftrightarrow>
     p_id r = SText (py_format env conv_id @ lit ''-ex-'' @ digits k) \<and>
     p_type r = lit ''thought'' \<and> p_is_item r = 1 \<and>
     p_conversation_id r = cid \<and> p_sequence_index r = SInt (int k) \<and>
     p_title r = SText (title ex) \<and> p_content r = content ex"

text \<open>
  The rows the run inserts for the conversation at position \<open>i\<close>: none; or the container
  row of the conversation followed by the item rows of its first exchanges, in order,
  each carrying the identifier of the conversation.
\<close>

definition exchange_block :: "py_env \<Rightarrow> nat \<Rightarrow> json \<Rightarrow> prow list \<Rightarrow> bool" where
  "exchange_block env i c0 rows \<longleftrightarrow>
     (case rows of
        [] \<Rightarrow> True
      | cont # items \<Rightarrow>
          (case c0 of
             JObj conv \<Rightarrow>
               (case bind (conv_id_of env i conv) of
                  Inl e \<Rightarrow> False
                | Inr cid \<Rightarrow>
                    (case pair_messages_any env
                            (dict_get conv (lit ''chat_messages'') (JArr [])) of
                       Inl e \<Rightarrow> False
                     | Inr exchanges \<Rightarrow>
                         is_container cid (length exchanges) cont \<and>
                         length items \<le> length exchanges \<and>
                         (\<forall>k<length items.
                            is_item env (conv_id_of env i conv) cid k (exchanges ! k)
                              (items ! k))))
           | _ \<Rightarrow> False))"

text \<open>
  Such rows are whole when there are none, or when there is an item row for every
  exchange of the conversation.
\<close>

definition whole_block :: "py_env \<Rightarrow> json \<Rightarrow> prow list \<Rightarrow> bool" where
  "whole_block env c0 rows \<longleftrightarrow>
     rows = [] \<or>
     (case c0 of
        JObj conv \<Rightarrow>
          (case pair_messages_any env (dict_get conv (lit ''chat_messages'') (JArr [])) of
             Inl e \<Rightarrow> False
           | Inr exchanges \<Rightarrow> length rows = 1 + length exchanges)
      | _ \<Rightarrow> False)"

text \<open>The connection a step of the run ends with, whether it returned or raised.\<close>

definition conn_of :: "(error \<times> pconn) + (pconn \<times> 'a) \<Rightarrow> pconn" where
  "conn_of x = (case x of Inl (e, c) \<Rightarrow> c | Inr (c, n) \<Rightarrow> c)"

text \<open>
  What one pass of the loop over the conversations does to the connection: the rows
  \<open>new\<close> are inserted, and stored in the table.
\<close>

definition step_ok :: "real_text \<Rightarrow> pconn \<Rightarrow> pconn \<Rightarrow> prow list \<Rightarrow> bool" where
  "step_ok rt c c' new \<longleftrightarrow>
     inserted (p_log c') = inserted (p_log c) @ new \<and>
     p_working c' = p_working c @ map (p_stored rt) new \<and>
     (p_committed c' = p_committed c \<or> p_committed c' = p_working c')"

section \<open>Notions the claims about the flat importer are stated with\<close>

text \<open>
  The number of messages of a conversation whose sender is exactly \<open>human\<close>, over the
  elements of its \<open>chat_messages\<close>.
\<close>

definition human_messages :: "json \<Rightarrow> nat" where
  "human_messages c0 =
     (case c0 of
        JObj conv \<Rightarrow>
          (case py_iter (dict_get conv (lit ''chat_messages'') (JArr [])) of
             Inl e \<Rightarrow> 0
           | Inr messages \<Rightarrow> length (filter is_human messages))
      | _ \<Rightarrow> 0)"

text \<open>
  The rows of one conversation: its node, of type \<open>context\<close>, whose \<open>child_count\<close> is the
  number of human messages of the conversation, followed by that many nodes of type
  \<open>thought\<close> that name it as their parent.
\<close>

definition conv_block :: "json \<Rightarrow> 'v node list \<Rightarrow> bool" where
  "conv_block c0 rows \<longleftrightarrow>
     (\<exists>cn ms. rows = cn # ms \<and> n_type cn = lit ''context'' \<and>
        n_child_count cn = human_messages c0 \<and> length ms = human_messages c0 \<and>
        (\<forall>x\<in>set ms. n_type x = lit ''thought'' \<and> n_parent_id x = n_id cn))"

text \<open>
  An edge among nodes: of type \<open>contains\<close>, from a node of type \<open>context\<close> to a node of
  type \<open>thought\<close>.
\<close>

definition contains_edge :: "'v node list \<Rightarrow> 'v edge \<Rightarrow> bool" where
  "contains_edge ns e \<longleftrightarrow>
     e_type e = lit ''contains'' \<and>
     (\<exists>cn\<in>set ns. n_type cn = lit ''context'' \<and> n_id cn = e_source_id e) \<and>
     (\<exists>mn\<in>set ns. n_type mn = lit ''thought'' \<and> n_id mn = e_target_id e)"

text \<open>
  Two dicts for the same row built under two runtimes: they agree on everything but
  the timestamps and, for an edge, its fresh identifier.
\<close>

definition node_sim :: "json node \<Rightarrow> json node \<Rightarrow> bool" where
  "node_sim d d' \<longleftrightarrow>
     n_id d' = n_id d \<and> n_title d' = n_title d \<and> n_content d' = n_content d \<and>
     n_parent_id d' = n_parent_id d"

definition edge_sim :: "json edge \<Rightarrow> json edge \<Rightarrow> bool" where
  "edge_sim e e' \<longleftrightarrow> e_source_id e' = e_source_id e \<and> e_target_id e' = e_target_id e"

section \<open>A runtime for the examples\<close>

text \<open>
  A runtime in which the clock reads 0, no timestamp parses, floats, lists and dicts
  print as nothing, the k-th fresh identifier is the decimal of k, and shuffling leaves
  the order alone.
\<close>

definition env0 :: py_env where
  "env0 = \<lparr>now_ms = 0, fromisoformat_ms = (\<lambda>s. None), repr_of = (\<lambda>v. []),
            uuid4 = digits, shuffle = (\<lambda>xs. xs)\<rparr>"

text \<open>No floating-point value occurs in the examples; its text is taken to be empty.\<close>

definition rt0 :: real_text where
  "rt0 = (\<lambda>r. [])"

text \<open>Messages given by a sender and a flat text field.\<close>

definition flat_msg :: "string \<Rightarrow> string \<Rightarrow> json" where
  "flat_msg s t = JObj [(lit ''sender'', JStr (lit s)), (lit ''text'', JStr (lit t))]"

text \<open>A human message whose text and list of content blocks are both empty.\<close>

definition empty_content_msg :: "(pystr \<times> json) list" where
  "empty_content_msg =
     [(lit ''sender'', JStr (lit ''human'')), (lit ''text'', JStr []), (lit ''content'', JArr [])]"

text \<open>A text of 20 spaces followed by 55 letters, on one line.\<close>

definition padded75 :: pystr where
  "padded75 = replicate 20 32 @ replicate 55 97"

text \<open>A text of 75 letters, on one line.\<close>

definition letters75 :: pystr where
  "letters75 = replicate 75 97"

text \<open>A human message, its reply, and one more assistant message.\<close>

definition three_msgs :: "json list" where
  "three_msgs =
     [flat_msg ''human'' ''Q'', flat_msg ''assistant'' ''A'', flat_msg ''assistant'' ''B'']"

text \<open>A human message whose flat text is the 75 letters.\<close>

definition letters75_msg :: "(pystr \<times> json) list" where
  "letters75_msg = [(lit ''sender'', JStr (lit ''human'')), (lit ''text'', JStr letters75)]"

text \<open>An export of one conversation, with identifier \<open>c1\<close> and no messages.\<close>

definition empty_conv :: json where
  "empty_conv = JObj [(lit ''uuid'', JStr (lit ''c1'')), (lit ''name'', JStr (lit ''Empty''))]"

definition empty_export :: json where
  "empty_export = JArr [empty_conv]"

text \<open>The container row of that conversation, and an item row linked to it.\<close>

definition container_row :: prow where
  "container_row =
     \<lparr>p_id = SText (lit ''c1''), p_type = lit ''context'', p_title = SText (lit ''Empty''),
      p_content = lit ''0 exchanges'', p_created_at = 0, p_updated_at = 0,
      p_summary = SNull, p_is_item = 0, p_child_count = 0,
      p_conversation_id = SNull, p_sequence_index = SNull\<rparr>"

definition item_row :: prow where
  "item_row =
     \<lparr>p_id = SText (lit ''c1-ex-0''), p_type = lit ''thought'', p_title = SText (lit ''Q''),
      p_content = lit ''Human: Q'', p_created_at = 0, p_updated_at = 0,
      p_summary = SNull, p_is_item = 1, p_child_count = 0,
      p_conversation_id = SText (lit ''c1''), p_sequence_index = SInt 0\<rparr>"

text \<open>
  An export of one conversation, with identifier \<open>c1\<close> and the three messages above,
  which make two exchanges; its container row and the item rows of the two exchanges.
\<close>

definition chat_conv :: json where
  "chat_conv = JObj [(lit ''uuid'', JStr (lit ''c1'')), (lit ''name'', JStr (lit ''Chat'')),
                     (lit ''chat_messages'', JArr three_msgs)]"

definition chat_export :: json where
  "chat_export = JArr [chat_conv]"

definition chat_row :: prow where
  "chat_row =
     \<lparr>p_id = SText (lit ''c1''), p_type = lit ''context'', p_title = SText (lit ''Chat''),
      p_content = lit ''2 exchanges'', p_created_at = 0, p_updated_at = 0,
      p_summary = SNull, p_is_item = 0, p_child_count = 2,
      p_conversation_id = SNull, p_sequence_index = SNull\<rparr>"

definition chat_item0 :: prow where
  "chat_item0 =
     \<lparr>p_id = SText (lit ''c1-ex-0''), p_type = lit ''thought'', p_title = SText (lit ''Q''),
      p_content = lit ''Human: Q'' @ [10, 10] @ lit ''Assistant: A'',
      p_created_at = 0, p_updated_at = 0,
      p_summary = SNull, p_is_item = 1, p_child_count = 0,
      p_conversation_id = SText (lit ''c1''), p_sequence_index = SInt 0\<rparr>"

definition chat_item1 :: prow where
  "chat_item1 =
     \<lparr>p_id = SText (lit ''c1-ex-1''), p_type = lit ''thought'', p_title = SText (lit ''B''),
      p_content = lit ''Assistant: B'', p_created_at = 0, p_updated_at = 0,
      p_summary = SNull, p_is_item = 1, p_child_count = 0,
      p_conversation_id = SText (lit ''c1''), p_sequence_index = SInt 1\<rparr>"

text \<open>
  An export of two conversations without messages, the first with the number 5 as its
  identifier, the second with the text \<open>5\<close>.
\<close>

definition five_export :: json where
  "five_export = JArr [JObj [(lit ''uuid'', JInt 5)], JObj [(lit ''uuid'', JStr (lit ''5''))]]"

text \<open>
  An export for the flat importer: one conversation \<open>c1\<close> with a human message \<open>m1\<close>
  and an assistant message \<open>m2\<close>; the rows the import makes of it under \<open>env0\<close>; and a
  database that holds one other node before the import.
\<close>

definition human_m1 :: "(pystr \<times> json) list" where
  "human_m1 = [(lit ''sender'', JStr (lit ''human'')), (lit ''uuid'', JStr (lit ''m1'')),
               (lit ''text'', JStr (lit ''Q''))]"

definition assistant_m2 :: "(pystr \<times> json) list" where
  "assistant_m2 = [(lit ''sender'', JStr (lit ''assistant'')), (lit ''uuid'', JStr (lit ''m2'')),
                   (lit ''text'', JStr (lit ''A''))]"

definition conv_c1 :: "(pystr \<times> json) list" where
  "conv_c1 = [(lit ''uuid'', JStr (lit ''c1'')),
              (lit ''chat_messages'', JArr [JObj human_m1, JObj assistant_m2])]"

definition flat_export :: json where
  "flat_export = JArr [JObj conv_c1]"

definition row_c1 :: "sqlval node" where
  "row_c1 = \<lparr>n_id = SText (lit ''c1''), n_type = lit ''context'',
              n_title = SText (lit ''Untitled''), n_content = SNull, n_created_at = 0,
              n_updated_at = 0, n_level = 3, n_parent_id = SNull, n_child_count = 1\<rparr>"

definition row_m1 :: "sqlval node" where
  "row_m1 = \<lparr>n_id = SText (lit ''m1''), n_type = lit ''thought'',
              n_title = SText (lit ''Q''), n_content = SText (lit ''Q''), n_created_at = 0,
              n_updated_at = 0, n_level = 4, n_parent_id = SText (lit ''c1''),
              n_child_count = 0\<rparr>"

definition row_e1 :: "sqlval edge" where
  "row_e1 = \<lparr>e_id = lit ''0'', e_source_id = SText (lit ''c1''),
              e_target_id = SText (lit ''m1''), e_type = lit ''contains'', e_created_at = 0\<rparr>"

definition old_db :: fdb where
  "old_db = \<lparr>nodes = [\<lparr>n_id = SText (lit ''old''), n_type = lit ''context'',
                        n_title = SText (lit ''Old''), n_content = SNull, n_created_at = 0,
                        n_updated_at = 0, n_level = 3, n_parent_id = SNull,
                        n_child_count = 0\<rparr>],
              edges = []\<rparr>"

section \<open>Properties of the message pairer\<close>

subsection \<open>Helper facts\<close>

lemma split_not_Nil: "split sep s \<noteq> []"
  by (induction s) (auto split: list.splits)

lemma create_exchange_title_str: "\<exists>t. create_exchange_title (JStr s) = Inr t"
  using split_not_Nil [of 10 "strip s"]
  by (auto simp: item0_def Let_def split: list.splits)

lemma message_text_flat:
  assumes "map_of msg (lit ''text'') = Some (JStr t)"
    and "t \<noteq> [] \<or> map_of msg (lit ''content'') = None"
  shows "message_text msg = Inr (JStr t)"
  using assms by (auto simp: message_text_def dict_get_def py_or_def Let_def)

lemma assistant_text_flat:
  assumes "map_of msg (lit ''text'') = Some (JStr t)"
    and "t \<noteq> [] \<or> map_of msg (lit ''content'') = None"
  shows "assistant_text_of msg = Inr (JStr t)"
  using assms by (auto simp: assistant_text_of_def dict_get_def py_or_def Let_def)

subsection \<open>A human message with and without a reply\<close>

text \<open>
  C1. Let \<open>h\<close> be a message with sender \<open>human\<close> and flat text \<open>Q\<close>, and \<open>a\<close> a message
  with sender \<open>assistant\<close> and flat text \<open>A\<close> (a message whose flat text is empty has no
  \<open>content\<close> field). Then \<open>pair_messages\<close> on \<open>[h, a]\<close> returns exactly one exchange, with
  content \<open>Human: Q\n\nAssistant: A\<close>, and on \<open>[h]\<close> exactly one exchange, with content
  \<open>Human: Q\n\nAssistant: *No response*\<close>.
\<close>

theorem pair_messages_human_assistant:
  assumes hs: "map_of h (lit ''sender'') = Some (JStr (lit ''human''))"
    and ht: "map_of h (lit ''text'') = Some (JStr Q)"
    and hc: "Q \<noteq> [] \<or> map_of h (lit ''content'') = None"
    and as: "map_of a (lit ''sender'') = Some (JStr (lit ''assistant''))"
    and at: "map_of a (lit ''text'') = Some (JStr A)"
    and ac: "A \<noteq> [] \<or> map_of a (lit ''content'') = None"
  shows "(\<exists>exs. pair_messages env [JObj h, JObj a] = Inr exs \<and>
            map content exs = [lit ''Human: '' @ Q @ [10, 10] @ lit ''Assistant: '' @ A]) \<and>
         (\<exists>exs. pair_messages env [JObj h] = Inr exs \<and>
            map content exs =
              [lit ''Human: '' @ Q @ [10, 10] @ lit ''Assistant: '' @ lit ''*No response*''])"
proof -
  obtain t where t: "create_exchange_title (JStr Q) = Inr t"
    using create_exchange_title_str by blast
  have mt: "message_text h = Inr (JStr Q)"
    using ht hc by (rule message_text_flat)
  have atx: "assistant_text_of a = Inr (JStr A)"
    using at ac by (rule assistant_text_flat)
  have sender: "dict_get h (lit ''sender'') (JStr []) = JStr (lit ''human'')"
    "dict_get a (lit ''sender'') JNull = JStr (lit ''assistant'')"
    using hs as by (simp_all add: dict_get_def)
  have fa2: "following_assistant [JObj h, JObj a] 0 = Inr (JStr A, 1)"
    using sender atx by (simp add: following_assistant_def)
  have fa1: "following_assistant [JObj h] 0 = Inr (JStr (lit ''*No response*''), 0)"
    by (simp add: following_assistant_def)
  have s2: "pair_step env [JObj h, JObj a] 0 =
      Inr (\<lparr>title = t,
            content = lit ''Human: '' @ Q @ [10, 10] @ lit ''Assistant: '' @ A,
            created_at = parse_timestamp env (dict_get h (lit ''created_at'') (JStr []))\<rparr>, 1)"
    using mt sender fa2 t by (simp add: pair_step_def Let_def)
  have s1: "pair_step env [JObj h] 0 =
      Inr (\<lparr>title = t,
            content = lit ''Human: '' @ Q @ [10, 10] @ lit ''Assistant: '' @ lit ''*No response*'',
            created_at = parse_timestamp env (dict_get h (lit ''created_at'') (JStr []))\<rparr>, 0)"
    using mt sender fa1 t by (simp add: pair_step_def Let_def)
  have "pair_messages env [JObj h, JObj a] =
      Inr [\<lparr>title = t,
            content = lit ''Human: '' @ Q @ [10, 10] @ lit ''Assistant: '' @ A,
            created_at = parse_timestamp env (dict_get h (lit ''created_at'') (JStr []))\<rparr>]"
    unfolding pair_messages_def
    by (subst pair_loop.simps, simp add: s2, subst pair_loop.simps, simp)
  moreover have "pair_messages env [JObj h] =
      Inr [\<lparr>title = t,
            content = lit ''Human: '' @ Q @ [10, 10] @ lit ''Assistant: '' @ lit ''*No response*'',
            created_at = parse_timestamp env (dict_get h (lit ''created_at'') (JStr []))\<rparr>]"
    unfolding pair_messages_def
    by (subst pair_loop.simps, simp add: s1, subst pair_loop.simps, simp)
  ultimately show ?thesis by simp
qed

theorem pair_messages_human_assistant_witness:
  "(\<exists>exs. pair_messages env0
        [JObj [(lit ''sender'', JStr (lit ''human'')), (lit ''text'', JStr (lit ''Q''))],
         JObj [(lit ''sender'', JStr (lit ''assistant'')), (lit ''text'', JStr (lit ''A''))]]
          = Inr exs \<and>
      map content exs = [lit ''Human: Q'' @ [10, 10] @ lit ''Assistant: A'']) \<and>
   (\<exists>exs. pair_messages env0
        [JObj [(lit ''sender'', JStr (lit ''human'')), (lit ''text'', JStr (lit ''Q''))]]
          = Inr exs \<and>
      map content exs = [lit ''Human: Q'' @ [10, 10] @ lit ''Assistant: *No response*''])"
  using pair_messages_human_assistant [of
      "[(lit ''sender'', JStr (lit ''human'')), (lit ''text'', JStr (lit ''Q''))]" "lit ''Q''"
      "[(lit ''sender'', JStr (lit ''assistant'')), (lit ''text'', JStr (lit ''A''))]" "lit ''A''"
      env0]
  by (simp add: lit_def)

subsection \<open>Counting and order\<close>

lemma lit_human_neq_assistant: "lit ''human'' \<noteq> lit ''assistant''"
  by (simp add: lit_def)

lemma following_assistant_consumed:
  assumes "following_assistant messages i = Inr (a, Suc i)"
  shows "Suc i < length messages \<and> \<not> is_human (messages ! Suc i)"
  using assms lit_human_neq_assistant
  by (auto simp: following_assistant_def is_human_def dict_get_def
      split: if_splits json.splits sum.splits option.splits)

lemma pair_step_consumed:
  assumes "pair_step env messages i = Inr (ex, Suc i)"
  shows "Suc i < length messages \<and> \<not> is_human (messages ! Suc i)"
proof -
  from assms obtain a where "following_assistant messages i = Inr (a, Suc i)"
    by (auto simp: pair_step_def Let_def split: if_splits json.splits sum.splits prod.splits)
  then show ?thesis by (rule following_assistant_consumed)
qed

lemma count_human_drop:
  assumes "i < length messages"
  shows "length (filter is_human (drop i messages)) \<le>
         Suc (length (filter is_human (drop (Suc i) messages)))"
  using assms by (simp add: Cons_nth_drop_Suc [symmetric])

lemma count_human_drop2:
  assumes "Suc i < length messages" and "\<not> is_human (messages ! Suc i)"
  shows "length (filter is_human (drop i messages)) \<le>
         Suc (length (filter is_human (drop (Suc (Suc i)) messages)))"
proof -
  have "drop i messages = messages ! i # messages ! Suc i # drop (Suc (Suc i)) messages"
    using assms(1) by (simp add: Cons_nth_drop_Suc)
  then show ?thesis using assms(2) by simp
qed

text \<open>
  The loop from cursor \<open>i\<close> appends one exchange per visited position; the visited
  positions increase, and every human message from \<open>i\<close> on is visited.
\<close>

lemma pair_loop_trace:
  assumes "pair_loop env messages i exchanges = Inr exs"
  shows "\<exists>new is. exs = exchanges @ new \<and>
           length new \<le> length messages - i \<and>
           length (filter is_human (drop i messages)) \<le> length new \<and>
           sorted_wrt (<) is \<and>
           list_all2 (\<lambda>j ex. i \<le> j \<and> j < length messages \<and>
                        (\<exists>i'. pair_step env messages j = Inr (ex, i'))) is new"
  using assms
proof (induction env messages i exchanges rule: pair_loop.induct)
  case (1 env messages i exchanges)
  show ?case
  proof (cases "i < length messages")
    case False
    with "1.prems" have "exs = exchanges"
      by (simp add: pair_loop.simps)
    with False show ?thesis by simp
  next
    case True
    with "1.prems" obtain ex i' where step: "pair_step env messages i = Inr (ex, i')"
      and rest: "pair_loop env messages (i' + 1) (exchanges @ [ex]) = Inr exs"
      by (subst (asm) pair_loop.simps) (auto split: sum.splits)
    from "1.IH" [OF True step refl rest]
    obtain new "is" where new: "exs = (exchanges @ [ex]) @ new"
      and len: "length new \<le> length messages - (i' + 1)"
      and hum: "length (filter is_human (drop (i' + 1) messages)) \<le> length new"
      and srt: "sorted_wrt (<) is"
      and all: "list_all2 (\<lambda>j ex. i' + 1 \<le> j \<and> j < length messages \<and>
                        (\<exists>k. pair_step env messages j = Inr (ex, k))) is new"
      by blast
    from step have cur: "i \<le> i' \<and> i' \<le> i + 1" by (rule pair_step_cursor)
    have h: "length (filter is_human (drop i messages)) \<le> Suc (length new)"
    proof (cases "i' = i")
      case True
      with hum count_human_drop [OF \<open>i < length messages\<close>] show ?thesis by simp
    next
      case False
      with cur have i': "i' = Suc i" by simp
      with step have "Suc i < length messages \<and> \<not> is_human (messages ! Suc i)"
        using pair_step_consumed by blast
      with count_human_drop2 [of i messages] hum i' show ?thesis by simp
    qed
    have ge: "\<forall>j\<in>set is. i < j"
    proof
      fix j assume "j \<in> set is"
      then obtain k where "k < length is" "is ! k = j"
        by (auto simp: in_set_conv_nth)
      with all have "i' + 1 \<le> j"
        by (auto simp: list_all2_conv_all_nth)
      with cur show "i < j" by simp
    qed
    have all': "list_all2 (\<lambda>j ex. i \<le> j \<and> j < length messages \<and>
                        (\<exists>k. pair_step env messages j = Inr (ex, k))) is new"
      using all cur by (auto elim!: list_all2_mono)
    have "exs = exchanges @ (ex # new)" using new by simp
    moreover have "length (ex # new) \<le> length messages - i"
      using len cur True by (simp, arith)
    moreover have "length (filter is_human (drop i messages)) \<le> length (ex # new)"
      using h by simp
    moreover have "sorted_wrt (<) (i # is)" using srt ge by simp
    moreover have "list_all2 (\<lambda>j ex. i \<le> j \<and> j < length messages \<and>
                        (\<exists>k. pair_step env messages j = Inr (ex, k))) (i # is) (ex # new)"
      using all' step True by auto
    ultimately show ?thesis by blast
  qed
qed

text \<open>
  C2. When \<open>pair_messages\<close> returns, the number of exchanges is at most the number of
  raw messages and at least the number of messages whose sender is \<open>human\<close>; and the
  exchanges are in message order: there are strictly increasing positions, one per
  exchange, such that the k-th exchange is the one the loop body builds at the k-th
  position.
\<close>

theorem pair_messages_count_order:
  assumes "pair_messages env messages = Inr exs"
  shows "length exs \<le> length messages \<and>
         length (filter is_human messages) \<le> length exs \<and>
         (\<exists>is. length is = length exs \<and> sorted_wrt (<) is \<and>
            (\<forall>k < length exs. is ! k < length messages \<and>
               (\<exists>i'. pair_step env messages (is ! k) = Inr (exs ! k, i'))))"
proof -
  from pair_loop_trace [OF assms [unfolded pair_messages_def]]
  obtain new "is" where "exs = new" "length new \<le> length messages"
    "length (filter is_human messages) \<le> length new" "sorted_wrt (<) is"
    "list_all2 (\<lambda>j ex. 0 \<le> j \<and> j < length messages \<and>
                        (\<exists>i'. pair_step env messages j = Inr (ex, i'))) is new"
    by auto
  then show ?thesis
    by (auto simp: list_all2_conv_all_nth intro!: exI [of _ "is"])
qed

lemmas pairing_eval = pair_step_def following_assistant_def
      message_text_def assistant_text_of_def dict_get_def py_or_def flat_msg_def env0_def
      parse_timestamp_def item0_def strip_def is_space_def lit_def Let_def three_msgs_def

lemma three_msgs_step0: "pair_step env0 three_msgs 0 =
   Inr (\<lparr>title = lit ''Q'', content = lit ''Human: Q'' @ [10, 10] @ lit ''Assistant: A'',
            created_at = 0\<rparr>, 1)"
  by (simp add: pairing_eval)

lemma three_msgs_step2: "pair_step env0 three_msgs 2 =
   Inr (\<lparr>title = lit ''B'', content = lit ''Assistant: B'', created_at = 0\<rparr>, 2)"
  by (simp add: pairing_eval)

lemma three_msgs_length: "length three_msgs = 3" by (simp add: three_msgs_def)

lemma pair_loop_step:
  "i < length ms \<Longrightarrow> pair_step env ms i = Inr (ex, i') \<Longrightarrow>
   pair_loop env ms i acc = pair_loop env ms (i' + 1) (acc @ [ex])"
  by (subst pair_loop.simps) simp

lemma pair_loop_done: "\<not> i < length ms \<Longrightarrow> pair_loop env ms i acc = Inr acc"
  by (subst pair_loop.simps) simp

lemma pair_messages_three:
  "pair_messages env0 three_msgs =
     Inr [\<lparr>title = lit ''Q'', content = lit ''Human: Q'' @ [10, 10] @ lit ''Assistant: A'',
            created_at = 0\<rparr>,
          \<lparr>title = lit ''B'', content = lit ''Assistant: B'', created_at = 0\<rparr>]"
proof -
  let ?e1 = "\<lparr>title = lit ''Q'', content = lit ''Human: Q'' @ [10, 10] @ lit ''Assistant: A'',
            created_at = 0\<rparr>"
  let ?e2 = "\<lparr>title = lit ''B'', content = lit ''Assistant: B'', created_at = 0\<rparr>"
  have "pair_loop env0 three_msgs 0 [] = pair_loop env0 three_msgs (1 + 1) ([] @ [?e1])"
    by (rule pair_loop_step [OF _ three_msgs_step0]) (simp add: three_msgs_length)
  also have "\<dots> = pair_loop env0 three_msgs 2 [?e1]"
    by (simp only: one_add_one append_Nil)
  also have "\<dots> = pair_loop env0 three_msgs (2 + 1) ([?e1] @ [?e2])"
    by (rule pair_loop_step [OF _ three_msgs_step2]) (simp add: three_msgs_length)
  also have "\<dots> = Inr [?e1, ?e2]"
    by (subst pair_loop_done) (simp_all add: three_msgs_length)
  finally show ?thesis by (simp add: pair_messages_def)
qed

theorem pair_messages_count_order_witness:
  "\<exists>exs. pair_messages env0 three_msgs = Inr exs \<and>
     length exs \<le> length three_msgs \<and>
     length (filter is_human three_msgs) \<le> length exs \<and>
     (\<exists>is :: nat list. length is = length exs \<and> sorted_wrt (<) is)"
proof -
  obtain exs where eq: "pair_messages env0 three_msgs = Inr exs"
    using pair_messages_three by blast
  note r = pair_messages_count_order [OF eq]
  from r have a: "length exs \<le> length three_msgs"
    by (rule conjunct1)
  from r have b: "length (filter is_human three_msgs) \<le> length exs"
    by (elim conjE)
  from r obtain "is" :: "nat list" where c: "length is = length exs" "sorted_wrt (<) is"
    by (elim conjE exE) blast
  from eq a b c show ?thesis
    by (intro exI conjI)
qed

subsection \<open>Titles\<close>

lemma item0_split: "item0 (split 10 s) = Inr (takeWhile (\<lambda>c. c \<noteq> 10) s)"
  by (induction s) (auto simp: item0_def split: list.splits)

lemma create_exchange_title_rule:
  "create_exchange_title (JStr t) = Inr (spec_title (strip t))"
  by (simp add: item0_split spec_title_def spec_first_line_def Let_def)

lemma spec_title_75: "length (spec_first_line t) = 75 \<Longrightarrow> length (spec_title t) = 63"
  by (simp add: spec_title_def Let_def lit_def)

lemma spec_title_Response: "spec_title (strip (lit ''Response'')) = lit ''Response''"
  by (simp add: spec_title_def spec_first_line_def strip_def is_space_def lit_def Let_def)

lemma message_text_falsy:
  "message_text msg = Inr v \<Longrightarrow> \<not> truthy v \<Longrightarrow> v = JStr []"
  by (auto simp: message_text_def py_or_def Let_def split: if_splits sum.splits)

lemma create_exchange_title_Inr:
  "create_exchange_title v = Inr t \<Longrightarrow> \<exists>s. v = JStr s"
  by (cases v) auto

lemma pair_step_title:
  assumes "pair_step env messages i = Inr (ex, i')" and "messages ! i = JObj msg"
  shows "\<exists>text. message_text msg = Inr (JStr text) \<and>
           title ex =
             (if dict_get msg (lit ''sender'') (JStr []) = JStr (lit ''human'')
              then spec_title (strip text)
              else if text = [] then lit ''Response''
              else spec_title (strip (take 100 text)))"
proof -
  obtain v where v: "message_text msg = Inr v"
    using assms by (auto simp: pair_step_def Let_def split: sum.splits)
  show ?thesis
  proof (cases "dict_get msg (lit ''sender'') (JStr []) = JStr (lit ''human'')")
    case True
    with assms v obtain t where "create_exchange_title v = Inr t" "title ex = t"
      by (auto simp: pair_step_def Let_def split: sum.splits prod.splits)
    moreover then obtain s where "v = JStr s"
      using create_exchange_title_Inr by blast
    ultimately show ?thesis using v True
      by (auto simp: create_exchange_title_rule simp del: create_exchange_title.simps)
  next
    case False
    show ?thesis
    proof (cases "truthy v")
      case tv: True
      with assms v False obtain arg t where a: "py_prefix 100 v = Inr arg"
        "create_exchange_title arg = Inr t" "title ex = t"
        by (auto simp: pair_step_def Let_def split: sum.splits prod.splits)
      then obtain s where s: "arg = JStr s"
        using create_exchange_title_Inr by blast
      with a obtain s' where "v = JStr s'" "s = take 100 s'"
        by (cases v) auto
      then show ?thesis using a s v False tv
        by (auto simp: create_exchange_title_rule simp del: create_exchange_title.simps)
    next
      case fv: False
      then have "v = JStr []" using v message_text_falsy by blast
      moreover have "title ex = spec_title (strip (lit ''Response''))"
        using assms v False fv
        by (auto simp: pair_step_def Let_def create_exchange_title_rule
            simp del: create_exchange_title.simps split: sum.splits prod.splits)
      ultimately show ?thesis using v False
        by (simp add: spec_title_Response)
    qed
  qed
qed

lemma spec_first_line_padded75: "length (spec_first_line padded75) = 75"
proof -
  have eq: "takeWhile (\<lambda>c. c \<noteq> 10) (replicate 20 32 @ replicate 55 97)
      = replicate 20 32 @ replicate 55 (97::nat)"
    by (subst takeWhile_eq_all_conv) auto
  show ?thesis unfolding spec_first_line_def padded75_def eq by simp
qed

lemma strip_padded75: "strip padded75 = replicate 55 97"
proof -
  have a: "dropWhile is_space (replicate 20 32 @ replicate 55 97) = replicate 55 97"
    by (subst dropWhile_append2) (auto simp: is_space_def dropWhile_replicate)
  show ?thesis unfolding strip_def padded75_def a
    by (simp add: dropWhile_replicate is_space_def)
qed

lemma strip_letters75: "strip letters75 = letters75"
  by (simp add: strip_def letters75_def dropWhile_replicate is_space_def)

lemma spec_first_line_letters75: "spec_first_line letters75 = letters75"
  unfolding spec_first_line_def letters75_def
  by (subst takeWhile_eq_all_conv) auto

text \<open>
  C3, as the claim states it, fails. The title is not built from the first line of the
  text but from the first line of the text with the white space at both its ends
  removed: the text \<open>"  Hi"\<close> has the first line \<open>"  Hi"\<close> and the title \<open>"Hi"\<close>; and a text
  of one line of 75 characters, 20 spaces and then 55 letters, has a title of 55
  characters, not 63.
\<close>

theorem title_first_line_counterexample:
  "create_exchange_title (JStr (lit ''  Hi'')) = Inr (lit ''Hi'') \<and>
   spec_title (lit ''  Hi'') = lit ''  Hi'' \<and>
   create_exchange_title (JStr (lit ''  Hi'')) \<noteq> Inr (spec_title (lit ''  Hi'')) \<and>
   length (spec_first_line padded75) = 75 \<and>
   create_exchange_title (JStr padded75) = Inr (replicate 55 97) \<and>
   length (replicate 55 (97::nat)) \<noteq> 63"
proof -
  have a: "create_exchange_title (JStr (lit ''  Hi'')) = Inr (lit ''Hi'')"
    by (simp add: item0_def strip_def is_space_def lit_def Let_def)
  have b: "spec_title (lit ''  Hi'') = lit ''  Hi''"
    by (simp add: spec_title_def spec_first_line_def lit_def Let_def)
  have c: "lit ''Hi'' \<noteq> lit ''  Hi''"
    by (simp add: lit_def)
  have d: "create_exchange_title (JStr padded75) = Inr (replicate 55 97)"
    by (simp add: create_exchange_title_rule strip_padded75 spec_title_def
        spec_first_line_def Let_def del: create_exchange_title.simps)
  show ?thesis
    using a b c d spec_first_line_padded75 by simp
qed

text \<open>
  C3, amended. For every text \<open>t\<close>, \<open>create_exchange_title\<close> returns the title rule applied
  to \<open>t\<close> stripped of the white space at both its ends: the first line of the stripped
  text, cut to its first 60 characters followed by \<open>...\<close> when it is longer than 60; so
  a stripped text whose first line has 75 characters gets a title of exactly 63
  characters. In the loop body the text handed over is the human message's text, and
  for any other message the first 100 characters of its text, or \<open>Response\<close> when the
  text is empty.
\<close>

theorem title_of_stripped_text:
  "create_exchange_title (JStr t) = Inr (spec_title (strip t)) \<and>
   (length (spec_first_line (strip t)) = 75 \<longrightarrow> length (spec_title (strip t)) = 63) \<and>
   (pair_step env messages i = Inr (ex, i') \<and> messages ! i = JObj msg \<longrightarrow>
      (\<exists>text. message_text msg = Inr (JStr text) \<and>
         title ex =
           (if dict_get msg (lit ''sender'') (JStr []) = JStr (lit ''human'')
            then spec_title (strip text)
            else if text = [] then lit ''Response''
            else spec_title (strip (take 100 text)))))"
  using create_exchange_title_rule [of t] spec_title_75 [of "strip t"]
    pair_step_title [of env messages i ex i' msg]
  by blast

lemma letters75_title:
  "create_exchange_title (JStr letters75) = Inr (spec_title letters75)"
  using create_exchange_title_rule [of letters75] by (simp only: strip_letters75)

lemma letters75_msg_text: "message_text letters75_msg = Inr (JStr letters75)"
  by (simp add: message_text_def dict_get_def lit_def letters75_msg_def letters75_def)

lemma letters75_msg_step:
  "\<exists>ex. pair_step env0 [JObj letters75_msg] 0 = Inr (ex, 0)"
proof -
  have s: "dict_get letters75_msg (lit ''sender'') (JStr []) = JStr (lit ''human'')"
    by (simp add: dict_get_def letters75_msg_def)
  have f: "following_assistant [JObj letters75_msg] 0 = Inr (JStr (lit ''*No response*''), 0)"
    by (simp add: following_assistant_def)
  show ?thesis
    using s f letters75_msg_text letters75_title
    by (simp add: pair_step_def Let_def del: create_exchange_title.simps)
qed

theorem title_of_stripped_text_witness:
  "length (spec_first_line (strip letters75)) = 75 \<and>
   (\<exists>ti. create_exchange_title (JStr letters75) = Inr ti \<and> length ti = 63) \<and>
   (\<exists>ex. pair_step env0 [JObj letters75_msg] 0 = Inr (ex, 0) \<and> length (title ex) = 63)"
proof -
  have l: "length (spec_first_line (strip letters75)) = 75"
    by (simp only: strip_letters75 spec_first_line_letters75) (simp add: letters75_def)
  obtain ex where step: "pair_step env0 [JObj letters75_msg] 0 = Inr (ex, 0)"
    using letters75_msg_step by blast
  have s: "dict_get letters75_msg (lit ''sender'') (JStr []) = JStr (lit ''human'')"
    by (simp add: dict_get_def letters75_msg_def)
  note r = title_of_stripped_text [of letters75 env0 "[JObj letters75_msg]" 0 ex 0 letters75_msg]
  from r l have a: "create_exchange_title (JStr letters75) = Inr (spec_title (strip letters75))"
    and b: "length (spec_title (strip letters75)) = 63"
    by blast+
  from r step obtain tx where "message_text letters75_msg = Inr (JStr tx)"
    and "title ex = spec_title (strip tx)"
    using s by auto
  with letters75_msg_text b have c: "length (title ex) = 63" by simp
  from l a b step c show ?thesis by blast
qed

subsection \<open>Text extraction\<close>

text \<open>
  C4 does not hold of the code. For a human message whose flat text is empty and whose
  list of content blocks is empty, the extraction of line 35 takes element 0 of the
  empty list and raises IndexError, and \<open>pair_messages\<close> raises with it; the extraction
  of lines 45 to 50, for an assistant reply of the same shape, tests the list first and
  returns the empty string.
\<close>

theorem message_text_empty_content_raises:
  "message_text empty_content_msg = Inl IndexError \<and>
   assistant_text_of empty_content_msg = Inr (JStr []) \<and>
   pair_messages env [JObj empty_content_msg] = Inl IndexError"
proof -
  have a: "message_text empty_content_msg = Inl IndexError"
    by (simp add: message_text_def dict_get_def lit_def empty_content_msg_def)
  have b: "assistant_text_of empty_content_msg = Inr (JStr [])"
    by (simp add: assistant_text_of_def dict_get_def lit_def py_or_def empty_content_msg_def)
  have "pair_step env [JObj empty_content_msg] 0 = Inl IndexError"
    using a by (simp add: pair_step_def Let_def)
  then have "pair_messages env [JObj empty_content_msg] = Inl IndexError"
    unfolding pair_messages_def by (subst pair_loop.simps) simp
  with a b show ?thesis by simp
qed

section \<open>Properties of the pairing importer\<close>

lemma inserted_append [simp]: "inserted (xs @ ys) = inserted xs @ inserted ys"
  by (simp add: inserted_def)

lemma inserted_simps [simp]:
  "inserted [] = []"
  "inserted [P_insert r] = [r]"
  "inserted [P_commit] = []"
  "inserted [P_count_linked] = []"
  "inserted [P_select_id v] = []"
  by (simp_all add: inserted_def)

lemma inserted_Cons_insert [simp]: "inserted (P_insert r # L) = r # inserted L"
  by (simp add: inserted_def)

lemma inserted_map_insert [simp]: "inserted (map P_insert rs) = rs"
  by (induction rs) (simp_all add: inserted_def)

lemma linked_stored [simp]: "linked (p_stored rt r) = linked r"
  by (simp add: linked_def p_stored_def)

lemma p_insert_Inr:
  "p_insert rt c r = Inr c' \<Longrightarrow>
     p_log c' = p_log c @ [P_insert r] \<and> p_working c' = p_working c @ [p_stored rt r] \<and>
     p_committed c' = p_committed c"
  by (auto simp: p_insert_def split: if_splits)

text \<open>The loop over the exchanges of one conversation, from position \<open>idx\<close>.\<close>

lemma insert_exchanges_conn:
  "\<exists>items. p_log (conn_of (insert_exchanges env rt conv_id cid idx exs c k))
             = p_log c @ map P_insert items \<and>
     p_working (conn_of (insert_exchanges env rt conv_id cid idx exs c k))
             = p_working c @ map (p_stored rt) items \<and>
     p_committed (conn_of (insert_exchanges env rt conv_id cid idx exs c k)) = p_committed c \<and>
     length items \<le> length exs \<and>
     (\<forall>j<length items. is_item env conv_id cid (idx + j) (exs ! j) (items ! j)) \<and>
     ((\<exists>y. insert_exchanges env rt conv_id cid idx exs c k = Inr y) \<longrightarrow>
        length items = length exs)"
proof (induction exs arbitrary: idx c k)
  case Nil
  show ?case by (simp add: conn_of_def)
next
  case (Cons ex rest)
  define row where "row =
        \<lparr>p_id = SText (py_format env conv_id @ lit ''-ex-'' @ digits idx),
         p_type = lit ''thought'',
         p_title = SText (title ex),
         p_content = content ex,
         p_created_at = created_at ex,
         p_updated_at = created_at ex,
         p_summary = SNull,
         p_is_item = 1,
         p_child_count = 0,
         p_conversation_id = cid,
         p_sequence_index = SInt (int idx)\<rparr>"
  have row: "is_item env conv_id cid idx ex row"
    by (simp add: is_item_def row_def)
  show ?case
  proof (cases "p_insert rt c row")
    case (Inl e)
    then have "insert_exchanges env rt conv_id cid idx (ex # rest) c k = Inl (e, c)"
      by (simp add: row_def)
    then show ?thesis
      by (intro exI [of _ "[]"]) (simp add: conn_of_def)
  next
    case (Inr c')
    then have eq: "insert_exchanges env rt conv_id cid idx (ex # rest) c k
        = insert_exchanges env rt conv_id cid (idx + 1) rest c' (k + 1)"
      by (simp add: row_def)
    from Cons.IH [of "idx + 1" c' "k + 1"] obtain items where
      lg: "p_log (conn_of (insert_exchanges env rt conv_id cid (idx + 1) rest c' (k + 1)))
             = p_log c' @ map P_insert items"
      and wk: "p_working (conn_of (insert_exchanges env rt conv_id cid (idx + 1) rest c' (k + 1)))
             = p_working c' @ map (p_stored rt) items"
      and cm: "p_committed (conn_of (insert_exchanges env rt conv_id cid (idx + 1) rest c' (k + 1)))
             = p_committed c'"
      and len: "length items \<le> length rest"
      and its: "\<forall>j<length items. is_item env conv_id cid (idx + 1 + j) (rest ! j) (items ! j)"
      and ret: "(\<exists>y. insert_exchanges env rt conv_id cid (idx + 1) rest c' (k + 1) = Inr y) \<longrightarrow>
        length items = length rest"
      by blast
    have all: "\<forall>j<length (row # items).
        is_item env conv_id cid (idx + j) ((ex # rest) ! j) ((row # items) ! j)"
    proof (intro allI impI)
      fix j assume j: "j < length (row # items)"
      show "is_item env conv_id cid (idx + j) ((ex # rest) ! j) ((row # items) ! j)"
      proof (cases j)
        case 0
        with row show ?thesis by simp
      next
        case (Suc j')
        with j have "j' < length items" by simp
        with its have "is_item env conv_id cid (idx + 1 + j') (rest ! j') (items ! j')"
          by blast
        with Suc show ?thesis by simp
      qed
    qed
    from p_insert_Inr [OF Inr] lg wk cm len ret all show ?thesis
      unfolding eq by (intro exI [of _ "row # items"]) simp
  qed
qed

lemma step_ok_refl: "step_ok rt c c []"
  by (simp add: step_ok_def)

lemma step_ok_commit: "step_ok rt c c' new \<Longrightarrow> step_ok rt c (p_commit c') new"
  by (simp add: step_ok_def p_commit_def)

lemma step_ok_select: "p_select_id rt c v = (found, c1) \<Longrightarrow> step_ok rt c c1 []"
  by (auto simp: step_ok_def p_select_id_def)

lemma step_ok_trans_Nil: "step_ok rt c c1 [] \<Longrightarrow> step_ok rt c1 c' new \<Longrightarrow>
   p_committed c1 = p_committed c \<Longrightarrow> step_ok rt c c' new"
  by (auto simp: step_ok_def)

lemma exchange_block_Nil [simp]: "exchange_block env i c0 []"
  by (simp add: exchange_block_def)

lemma whole_block_Nil [simp]: "whole_block env c0 []"
  by (simp add: whole_block_def)

text \<open>One conversation that is not in the table yet.\<close>

lemma insert_conversation_conn:
  assumes cid: "bind (conv_id_of env i conv) = Inr cid"
  shows "\<exists>new.
      step_ok rt c1
        (conn_of (insert_conversation env rt i conv (conv_id_of env i conv) cid c1 n)) new \<and>
      exchange_block env i (JObj conv) new \<and>
      ((\<exists>y. insert_conversation env rt i conv (conv_id_of env i conv) cid c1 n = Inr y) \<longrightarrow>
         whole_block env (JObj conv) new) \<and>
      (dict_get conv (lit ''chat_messages'') (JArr []) = JArr [] \<longrightarrow>
         (\<forall>r\<in>set new. \<not> linked r))"
proof -
  define conv_id where "conv_id = conv_id_of env i conv"
  define messages where "messages = dict_get conv (lit ''chat_messages'') (JArr [])"
  define created where
    "created = parse_timestamp env (dict_get conv (lit ''created_at'') (JStr []))"
  define updated where
    "updated = (if truthy (dict_get conv (lit ''updated_at'') JNull)
                then parse_timestamp env (dict_get conv (lit ''updated_at'') (JStr []))
                else created)"
  define R where "R = insert_conversation env rt i conv conv_id cid c1 n"
  note unfold = insert_conversation_def [of env rt i conv conv_id cid c1 n,
      unfolded Let_def, folded messages_def created_def, folded updated_def, folded R_def]
  have stop: "\<exists>new. step_ok rt c1 (conn_of R) new \<and> exchange_block env i (JObj conv) new \<and>
      ((\<exists>y. R = Inr y) \<longrightarrow> whole_block env (JObj conv) new) \<and>
      (messages = JArr [] \<longrightarrow> (\<forall>r\<in>set new. \<not> linked r))" if "R = Inl (e, c1)" for e
    using that by (intro exI [of _ "[]"]) (simp add: conn_of_def step_ok_refl)
  have "\<exists>new. step_ok rt c1 (conn_of R) new \<and> exchange_block env i (JObj conv) new \<and>
      ((\<exists>y. R = Inr y) \<longrightarrow> whole_block env (JObj conv) new) \<and>
      (messages = JArr [] \<longrightarrow> (\<forall>r\<in>set new. \<not> linked r))"
  proof (cases "pair_messages_any env messages")
    case (Inl e)
    then show ?thesis using unfold stop by simp
  next
    case exs: (Inr exchanges)
    have zero: "exchanges = []" if "messages = JArr []"
      using that exs by (simp add: pair_messages_def pair_loop.simps)
    show ?thesis
    proof (cases "bind (py_or (dict_get conv (lit ''name'') JNull) (JStr (lit ''Untitled'')))")
      case (Inl e)
      then show ?thesis using unfold stop exs by simp
    next
      case name: (Inr name)
      show ?thesis
      proof (cases "bind (dict_get conv (lit ''summary'') JNull)")
        case (Inl e)
        then show ?thesis using unfold stop exs name by simp
      next
        case summary: (Inr summary)
        define cont where "cont =
                      \<lparr>p_id = cid,
                       p_type = lit ''context'',
                       p_title = name,
                       p_content = digits (length exchanges) @ lit '' exchanges'',
                       p_created_at = created,
                       p_updated_at = updated,
                       p_summary = summary,
                       p_is_item = 0,
                       p_child_count = length exchanges,
                       p_conversation_id = SNull,
                       p_sequence_index = SNull\<rparr>"
        have cont: "is_container cid (length exchanges) cont"
          by (simp add: is_container_def cont_def)
        show ?thesis
        proof (cases "p_insert rt c1 cont")
          case (Inl e)
          then show ?thesis using unfold stop exs name summary
            by (simp add: cont_def)
        next
          case c2: (Inr c2)
          define res where
            "res = insert_exchanges env rt conv_id cid 0 exchanges c2 (exchanges_imported n)"
          define c3 where "c3 = conn_of res"
          from insert_exchanges_conn
            [of env rt conv_id cid 0 exchanges c2 "exchanges_imported n"]
          obtain items where
            lg: "p_log c3 = p_log c2 @ map P_insert items"
            and wk: "p_working c3 = p_working c2 @ map (p_stored rt) items"
            and cm: "p_committed c3 = p_committed c2"
            and len: "length items \<le> length exchanges"
            and its: "\<forall>j<length items. is_item env conv_id cid (0 + j) (exchanges ! j) (items ! j)"
            and ret: "(\<exists>y. res = Inr y) \<longrightarrow> length items = length exchanges"
            unfolding c3_def res_def by blast
          have s3: "step_ok rt c1 c3 (cont # items)"
            using lg wk cm p_insert_Inr [OF c2]
            by (simp add: step_ok_def)
          have Req: "R = (case res of Inl x \<Rightarrow> Inl x
                          | Inr (c3, k) \<Rightarrow>
                              Inr (if (i + 1) mod 50 = 0 then p_commit c3 else c3,
                                   n\<lparr>conversations_imported := conversations_imported n + 1,
                                     exchanges_imported := k\<rparr>))"
            using unfold exs name summary c2
            by (simp add: cont_def [symmetric] res_def [symmetric])
          have fin: "conn_of R = c3 \<or> conn_of R = p_commit c3"
            unfolding Req c3_def
            by (auto simp: conn_of_def split: sum.splits prod.splits)
          have retR: "(\<exists>y. res = Inr y)" if "\<exists>y. R = Inr y"
            using that unfolding Req by (auto split: sum.splits)
          have b: "exchange_block env i (JObj conv) (cont # items)"
            using cid exs cont len its
            by (simp add: exchange_block_def conv_id_def [symmetric] messages_def [symmetric])
          have w: "(\<exists>y. R = Inr y) \<longrightarrow> whole_block env (JObj conv) (cont # items)"
            using retR ret exs
            by (auto simp: whole_block_def messages_def [symmetric])
          have z: "messages = JArr [] \<longrightarrow> (\<forall>r\<in>set (cont # items). \<not> linked r)"
          proof
            assume "messages = JArr []"
            with zero len have "items = []" by simp
            then show "\<forall>r\<in>set (cont # items). \<not> linked r"
              by (simp add: linked_def cont_def)
          qed
          from fin show ?thesis
          proof
            assume "conn_of R = c3"
            with s3 b w z show ?thesis
              by (intro exI [of _ "cont # items"]) simp
          next
            assume "conn_of R = p_commit c3"
            with step_ok_commit [OF s3] b w z show ?thesis
              by (intro exI [of _ "cont # items"]) simp
          qed
        qed
      qed
    qed
  qed
  then show ?thesis
    unfolding R_def conv_id_def messages_def .
qed

text \<open>One pass of the loop over the conversations.\<close>

lemma import_conv_conn:
  "\<exists>new. step_ok rt c (conn_of (import_conv env rt i c0 c n)) new \<and>
          exchange_block env i c0 new \<and>
          ((\<exists>y. import_conv env rt i c0 c n = Inr y) \<longrightarrow> whole_block env c0 new) \<and>
          (zero_messages c0 \<longrightarrow> (\<forall>r\<in>set new. \<not> linked r))"
proof -
  have stop: ?thesis if "import_conv env rt i c0 c n = Inl (e, c)" for e
    using that by (intro exI [of _ "[]"]) (simp add: conn_of_def step_ok_refl)
  show ?thesis
  proof (cases c0)
    case (JObj conv)
    define conv_id where "conv_id = conv_id_of env i conv"
    have ic: "import_conv env rt i c0 c n =
        (case bind conv_id of
           Inl e \<Rightarrow> Inl (e, c)
         | Inr cid \<Rightarrow>
             (case p_select_id rt c cid of
                (found, c1) \<Rightarrow>
                  if found then Inr (c1, n\<lparr>skipped := skipped n + 1\<rparr>)
                  else insert_conversation env rt i conv conv_id cid c1 n))"
      unfolding import_conv_def JObj conv_id_def conv_id_of_def Let_def by simp
    show ?thesis
    proof (cases "bind conv_id")
      case (Inl e)
      then have "import_conv env rt i c0 c n = Inl (e, c)"
        by (simp add: ic)
      then show ?thesis by (rule stop)
    next
      case (Inr cid)
      obtain found c1 where sel: "p_select_id rt c cid = (found, c1)"
        by (cases "p_select_id rt c cid") auto
      have c1: "step_ok rt c c1 []" using sel by (rule step_ok_select)
      have cm: "p_committed c1 = p_committed c"
        using sel by (auto simp: p_select_id_def)
      show ?thesis
      proof (cases found)
        case True
        then have "conn_of (import_conv env rt i c0 c n) = c1"
          using Inr sel by (simp add: ic conn_of_def)
        then show ?thesis using c1
          by (intro exI [of _ "[]"]) simp
      next
        case False
        then have eq: "import_conv env rt i c0 c n
            = insert_conversation env rt i conv conv_id cid c1 n"
          using Inr sel by (simp add: ic)
        from insert_conversation_conn [of env i conv cid rt c1 n] Inr
        obtain new where
          s: "step_ok rt c1 (conn_of (insert_conversation env rt i conv conv_id cid c1 n)) new"
          and b: "exchange_block env i (JObj conv) new"
          and w: "(\<exists>y. insert_conversation env rt i conv conv_id cid c1 n = Inr y) \<longrightarrow>
             whole_block env (JObj conv) new"
          and z: "dict_get conv (lit ''chat_messages'') (JArr []) = JArr [] \<longrightarrow>
             (\<forall>r\<in>set new. \<not> linked r)"
          unfolding conv_id_def by blast
        have s': "step_ok rt c (conn_of (import_conv env rt i c0 c n)) new"
          using step_ok_trans_Nil [OF c1 s cm] by (simp add: eq)
        have b': "exchange_block env i c0 new"
          using b by (simp add: JObj)
        have w': "(\<exists>y. import_conv env rt i c0 c n = Inr y) \<longrightarrow> whole_block env c0 new"
          using w unfolding eq by (simp add: JObj)
        have z': "zero_messages c0 \<longrightarrow> (\<forall>r\<in>set new. \<not> linked r)"
          using z by (simp add: zero_messages_def JObj)
        from s' b' w' z' show ?thesis
          by (intro exI [of _ new] conjI)
      qed
    qed
  qed (rule stop [of AttributeError], simp add: import_conv_def)+
qed

text \<open>The whole loop, from position \<open>i\<close>.\<close>

lemma import_loop_conn:
  "\<exists>blocks.
     inserted (p_log (conn_of (import_loop env rt i convs c n)))
       = inserted (p_log c) @ concat blocks \<and>
     p_working (conn_of (import_loop env rt i convs c n))
       = p_working c @ map (p_stored rt) (concat blocks) \<and>
     (p_committed (conn_of (import_loop env rt i convs c n)) = p_committed c \<or>
      (\<exists>k \<le> length (concat blocks). p_committed (conn_of (import_loop env rt i convs c n))
          = p_working c @ take k (map (p_stored rt) (concat blocks)))) \<and>
     length blocks \<le> length convs \<and>
     (\<forall>j<length blocks. exchange_block env (i + j) (convs ! j) (blocks ! j)) \<and>
     ((\<exists>y. import_loop env rt i convs c n = Inr y) \<longrightarrow>
        length blocks = length convs \<and>
        (\<forall>j<length blocks. whole_block env (convs ! j) (blocks ! j))) \<and>
     ((\<forall>c0\<in>set convs. zero_messages c0) \<longrightarrow> (\<forall>r\<in>set (concat blocks). \<not> linked r))"
proof (induction convs arbitrary: i c n)
  case Nil
  show ?case by (intro exI [of _ "[]"]) (simp add: conn_of_def)
next
  case (Cons conv rest)
  from import_conv_conn [of rt c env i conv n] obtain new1 where
    s1: "step_ok rt c (conn_of (import_conv env rt i conv c n)) new1"
    and b1: "exchange_block env i conv new1"
    and w1: "(\<exists>y. import_conv env rt i conv c n = Inr y) \<longrightarrow> whole_block env conv new1"
    and z1: "zero_messages conv \<longrightarrow> (\<forall>r\<in>set new1. \<not> linked r)"
    by blast
  show ?case
  proof (cases "import_conv env rt i conv c n")
    case (Inl x)
    then have eq: "import_loop env rt i (conv # rest) c n = Inl x" by simp
    have cn: "conn_of (Inl x :: (error \<times> pconn) + (pconn \<times> counters)) =
      conn_of (import_conv env rt i conv c n)"
      using Inl by (simp add: conn_of_def)
    define c' where "c' = conn_of (import_conv env rt i conv c n)"
    from s1 have l1: "inserted (p_log c') = inserted (p_log c) @ new1"
      and wk1: "p_working c' = p_working c @ map (p_stored rt) new1"
      and m1: "p_committed c' = p_committed c \<or> p_committed c' = p_working c'"
      unfolding step_ok_def c'_def by blast+
    have m: "p_committed c' = p_committed c \<or>
      (\<exists>k \<le> length (concat [new1]). p_committed c'
          = p_working c @ take k (map (p_stored rt) (concat [new1])))"
      using m1 wk1 by (auto intro: exI [of _ "length new1"])
    have b: "\<forall>j<length [new1]. exchange_block env (i + j) ((conv # rest) ! j) ([new1] ! j)"
      using b1 by simp
    have z: "(\<forall>c0\<in>set (conv # rest). zero_messages c0) \<longrightarrow>
        (\<forall>r\<in>set (concat [new1]). \<not> linked r)"
      using z1 by simp
    from l1 wk1 m b z show ?thesis
      unfolding eq cn c'_def [symmetric]
      by (intro exI [of _ "[new1]"]) simp
  next
    case (Inr y)
    obtain c' n' where y: "y = (c', n')" by (cases y)
    with Inr have eq: "import_loop env rt i (conv # rest) c n
        = import_loop env rt (i + 1) rest c' n'"
      by simp
    have c': "conn_of (import_conv env rt i conv c n) = c'"
      using Inr y by (simp add: conn_of_def)
    define C where "C = conn_of (import_loop env rt (i + 1) rest c' n')"
    from Cons.IH [of "i + 1" c' n'] obtain blocks2 where
      l2: "inserted (p_log C) = inserted (p_log c') @ concat blocks2"
      and wk2: "p_working C = p_working c' @ map (p_stored rt) (concat blocks2)"
      and m2: "p_committed C = p_committed c' \<or>
        (\<exists>k \<le> length (concat blocks2). p_committed C
          = p_working c' @ take k (map (p_stored rt) (concat blocks2)))"
      and len2: "length blocks2 \<le> length rest"
      and b2: "\<forall>j<length blocks2. exchange_block env (i + 1 + j) (rest ! j) (blocks2 ! j)"
      and w2: "(\<exists>y. import_loop env rt (i + 1) rest c' n' = Inr y) \<longrightarrow>
        length blocks2 = length rest \<and>
        (\<forall>j<length blocks2. whole_block env (rest ! j) (blocks2 ! j))"
      and z2: "(\<forall>c0\<in>set rest. zero_messages c0) \<longrightarrow> (\<forall>r\<in>set (concat blocks2). \<not> linked r)"
      unfolding C_def by blast
    from s1 c' have l1: "inserted (p_log c') = inserted (p_log c) @ new1"
      and wk1: "p_working c' = p_working c @ map (p_stored rt) new1"
      and m1: "p_committed c' = p_committed c \<or> p_committed c' = p_working c'"
      unfolding step_ok_def by blast+
    from w1 Inr have wh1: "whole_block env conv new1" by blast
    have l: "inserted (p_log C) = inserted (p_log c) @ concat (new1 # blocks2)"
      using l1 l2 by simp
    have wk: "p_working C = p_working c @ map (p_stored rt) (concat (new1 # blocks2))"
      using wk1 wk2 by simp
    have m: "p_committed C = p_committed c \<or>
      (\<exists>k \<le> length (concat (new1 # blocks2)). p_committed C
          = p_working c @ take k (map (p_stored rt) (concat (new1 # blocks2))))"
    proof -
      from m2 show ?thesis
      proof
        assume a: "p_committed C = p_committed c'"
        from m1 show ?thesis
        proof
          assume "p_committed c' = p_committed c"
          with a show ?thesis by simp
        next
          assume "p_committed c' = p_working c'"
          with a wk1 show ?thesis
            by (intro disjI2 exI [of _ "length new1"]) simp
        qed
      next
        assume "\<exists>k \<le> length (concat blocks2). p_committed C
          = p_working c' @ take k (map (p_stored rt) (concat blocks2))"
        then obtain k where "k \<le> length (concat blocks2)"
          "p_committed C = p_working c' @ take k (map (p_stored rt) (concat blocks2))"
          by blast
        with wk1 show ?thesis
          by (intro disjI2 exI [of _ "length new1 + k"]) simp
      qed
    qed
    have len: "length (new1 # blocks2) \<le> length (conv # rest)"
      using len2 by simp
    have b: "\<forall>j<length (new1 # blocks2).
        exchange_block env (i + j) ((conv # rest) ! j) ((new1 # blocks2) ! j)"
    proof (intro allI impI)
      fix j assume j: "j < length (new1 # blocks2)"
      show "exchange_block env (i + j) ((conv # rest) ! j) ((new1 # blocks2) ! j)"
      proof (cases j)
        case 0
        with b1 show ?thesis by simp
      next
        case (Suc j')
        with j have "j' < length blocks2" by simp
        with b2 have "exchange_block env (i + 1 + j') (rest ! j') (blocks2 ! j')" by blast
        with Suc show ?thesis by simp
      qed
    qed
    have w: "(\<exists>y. import_loop env rt (i + 1) rest c' n' = Inr y) \<longrightarrow>
        length (new1 # blocks2) = length (conv # rest) \<and>
        (\<forall>j<length (new1 # blocks2). whole_block env ((conv # rest) ! j) ((new1 # blocks2) ! j))"
    proof (intro impI conjI allI)
      assume r: "\<exists>y. import_loop env rt (i + 1) rest c' n' = Inr y"
      with w2 show "length (new1 # blocks2) = length (conv # rest)" by simp
      fix j assume j: "j < length (new1 # blocks2)"
      show "whole_block env ((conv # rest) ! j) ((new1 # blocks2) ! j)"
      proof (cases j)
        case 0
        with wh1 show ?thesis by simp
      next
        case (Suc j')
        with j have "j' < length blocks2" by simp
        with w2 r have "whole_block env (rest ! j') (blocks2 ! j')" by blast
        with Suc show ?thesis by simp
      qed
    qed
    have z: "(\<forall>c0\<in>set (conv # rest). zero_messages c0) \<longrightarrow>
        (\<forall>r\<in>set (concat (new1 # blocks2)). \<not> linked r)"
      using z1 z2 by auto
    from l wk m len b w z show ?thesis
      unfolding eq C_def [symmetric]
      by (intro exI [of _ "new1 # blocks2"] conjI)
  qed
qed

text \<open>What the rows of one conversation say about the links.\<close>

lemma bind_SNull: "bind v = Inr SNull \<longleftrightarrow> v = JNull"
  by (cases v) (simp_all split: if_splits)

lemma conv_id_of_None:
  "conv_id_of env i conv = JNull \<longleftrightarrow> uuid_is_None (JObj conv)"
  by (simp add: conv_id_of_def uuid_is_None_def dict_get_def split: option.splits)

lemma exchange_block_links:
  assumes b: "exchange_block env i c0 (cont # items)"
  shows "p_is_item cont = 0 \<and> p_conversation_id cont = SNull \<and>
         (\<forall>r\<in>set items. p_is_item r = 1 \<and> p_conversation_id r = p_id cont \<and>
            (linked r \<longleftrightarrow> \<not> uuid_is_None c0))"
proof -
  from b obtain conv where c0: "c0 = JObj conv"
    by (cases c0) (simp_all add: exchange_block_def)
  from b c0 obtain cid where cid: "bind (conv_id_of env i conv) = Inr cid"
    by (cases "bind (conv_id_of env i conv)") (simp_all add: exchange_block_def)
  from b c0 cid obtain exchanges where
    cont: "is_container cid (length exchanges) cont"
    and its: "\<forall>k<length items.
       is_item env (conv_id_of env i conv) cid k (exchanges ! k) (items ! k)"
    by (cases "pair_messages_any env (dict_get conv (lit ''chat_messages'') (JArr []))")
       (auto simp: exchange_block_def)
  have null: "cid = SNull \<longleftrightarrow> uuid_is_None c0"
    using cid bind_SNull [of "conv_id_of env i conv"] conv_id_of_None [of env i conv] c0
    by auto
  have "p_is_item r = 1 \<and> p_conversation_id r = p_id cont \<and>
            (linked r \<longleftrightarrow> \<not> uuid_is_None c0)" if "r \<in> set items" for r
  proof -
    from that obtain k where k: "k < length items" "r = items ! k"
      by (auto simp: in_set_conv_nth)
    with its have "is_item env (conv_id_of env i conv) cid k (exchanges ! k) r" by blast
    with cont null show ?thesis
      by (simp add: is_item_def is_container_def linked_def)
  qed
  with cont show ?thesis
    by (simp add: is_container_def)
qed

lemma exchange_block_hd_tl:
  assumes b: "exchange_block env i c0 rows"
  shows "(rows \<noteq> [] \<longrightarrow> p_is_item (hd rows) = 0 \<and> p_conversation_id (hd rows) = SNull) \<and>
         (\<forall>r\<in>set (tl rows). p_is_item r = 1 \<and> p_conversation_id r = p_id (hd rows) \<and>
            (linked r \<longleftrightarrow> \<not> uuid_is_None c0))"
proof (cases rows)
  case Nil
  then show ?thesis by simp
next
  case (Cons cont items)
  with exchange_block_links [of env i c0 cont items] b show ?thesis by simp
qed

text \<open>The run, with and without a linked row in the database.\<close>

lemma p_count_linked_eq:
  "p_count_linked (p_connect db) =
     (length (filter linked db), \<lparr>p_committed = db, p_working = db, p_log = [P_count_linked]\<rparr>)"
  by (simp add: p_count_linked_def p_connect_def)

lemma filter_linked_pos: "(\<exists>r\<in>set db. linked r) \<longleftrightarrow> length (filter linked db) > 0"
  by (simp add: filter_empty_conv)

lemma main_linked:
  assumes db: "\<exists>r\<in>set db. linked r"
    and load: "load_conversations env data = Inr convs"
  shows "main env rt db data =
     \<lparr>final_db = db, executed = [P_count_linked],
      outcome = Inr (Skipping_import (length (filter linked db)))\<rparr>"
proof -
  from db have "length (filter linked db) > 0"
    by (simp add: filter_linked_pos)
  with load show ?thesis
    by (simp add: main_def p_count_linked_eq)
qed

lemma main_not_linked:
  assumes db: "\<forall>r\<in>set db. \<not> linked r"
    and load: "load_conversations env data = Inr convs"
  shows "\<exists>res. res = import_loop env rt 0 convs
              \<lparr>p_committed = db, p_working = db, p_log = [P_count_linked]\<rparr>
              \<lparr>conversations_imported = 0, exchanges_imported = 0, skipped = 0\<rparr> \<and>
           (final_db (main env rt db data) = p_committed (conn_of res) \<or>
            final_db (main env rt db data) = p_working (conn_of res)) \<and>
           inserted (executed (main env rt db data)) = inserted (p_log (conn_of res)) \<and>
           (\<forall>k. outcome (main env rt db data) \<noteq> Inr (Skipping_import k)) \<and>
           ((\<exists>a b s. outcome (main env rt db data) = Inr (Import_complete a b s)) \<longrightarrow>
              (\<exists>y. res = Inr y))"
proof -
  from db have z: "length (filter linked db) = 0"
    by (simp add: filter_empty_conv)
  show ?thesis
    using load z
    by (auto simp: main_def p_count_linked_eq conn_of_def p_commit_def
        split: sum.splits prod.splits)
qed

text \<open>
  C5. When the database already holds a row whose \<open>conversation_id\<close> is not NULL, the run
  inserts nothing and leaves the database as it was. Unless loading the export itself
  raised, the last thing it prints is the warning that conversation nodes already exist,
  with their number, and that the import is skipped: the summary is not printed, so no
  conversation is reported as imported.
\<close>

theorem main_skips_when_linked:
  assumes "\<exists>r\<in>set db. linked r"
  shows "final_db (main env rt db data) = db \<and>
         inserted (executed (main env rt db data)) = [] \<and>
         (outcome (main env rt db data) = Inr (Skipping_import (length (filter linked db))) \<or>
          (\<exists>e. load_conversations env data = Inl e \<and> outcome (main env rt db data) = Inl e))"
proof (cases "load_conversations env data")
  case (Inl e)
  then show ?thesis by (simp add: main_def)
next
  case (Inr conversations)
  from assms have "length (filter linked db) > 0"
    by (simp add: filter_linked_pos)
  with Inr show ?thesis
    by (simp add: main_def p_count_linked_eq)
qed

text \<open>
  C10. The rows a run inserts are, conversation by conversation in the order of the
  run, the rows of that conversation: none (the conversation was skipped, or the run
  ended before its first INSERT), or its container row followed by the item rows of its
  exchanges, in order. The container row has \<open>conversation_id\<close> NULL. Every item row
  has as its \<open>conversation_id\<close> the identifier of the container row before it, its own
  conversation; this is not NULL unless the \<open>uuid\<close> of the conversation is \<open>None\<close>. When
  the run ends with its summary, every conversation has its rows, and those of a
  conversation that was not skipped are whole: one item row for each of its exchanges.

  So when the database had no row with a \<open>conversation_id\<close> before the run and every
  conversation of the run has zero messages, the database the run leaves has no such
  row either, and no later run on it ends with the warning of the guard against a
  second import.
\<close>

theorem conversation_links:
  assumes load: "load_conversations env data = Inr convs"
  shows "\<exists>blocks.
     inserted (executed (main env rt db data)) = concat blocks \<and>
     length blocks \<le> length convs \<and>
     (\<forall>j<length blocks.
        exchange_block env j (convs ! j) (blocks ! j) \<and>
        (blocks ! j \<noteq> [] \<longrightarrow>
           p_is_item (hd (blocks ! j)) = 0 \<and> p_conversation_id (hd (blocks ! j)) = SNull) \<and>
        (\<forall>r\<in>set (tl (blocks ! j)).
           p_is_item r = 1 \<and> p_conversation_id r = p_id (hd (blocks ! j)) \<and>
           (linked r \<longleftrightarrow> \<not> uuid_is_None (convs ! j)))) \<and>
     ((\<exists>a b s. outcome (main env rt db data) = Inr (Import_complete a b s)) \<longrightarrow>
        length blocks = length convs \<and>
        (\<forall>j<length blocks. whole_block env (convs ! j) (blocks ! j))) \<and>
     ((\<forall>r\<in>set db. \<not> linked r) \<and> (\<forall>c\<in>set convs. zero_messages c) \<longrightarrow>
        (\<forall>r\<in>set (final_db (main env rt db data)). \<not> linked r) \<and>
        (\<forall>env' rt' data' k.
           outcome (main env' rt' (final_db (main env rt db data)) data')
             \<noteq> Inr (Skipping_import k)))"
proof (cases "\<exists>r\<in>set db. linked r")
  case True
  note m = main_linked [OF True load, of rt]
  have one: "inserted (executed (main env rt db data)) = concat []"
    by (simp add: m)
  have three: "\<not> (\<exists>a b s. outcome (main env rt db data) = Inr (Import_complete a b s))"
    by (simp add: m)
  have four: "\<not> ((\<forall>r\<in>set db. \<not> linked r) \<and> (\<forall>c\<in>set convs. zero_messages c))"
    using True by blast
  from one three four show ?thesis
    by (intro exI [of _ "[]"] conjI impI) simp_all
next
  case False
  then have db: "\<forall>r\<in>set db. \<not> linked r" by simp
  define c where "c = \<lparr>p_committed = db, p_working = db, p_log = [P_count_linked]\<rparr>"
  define n where "n = \<lparr>conversations_imported = 0, exchanges_imported = 0, skipped = 0\<rparr>"
  define c' where "c' = conn_of (import_loop env rt 0 convs c n)"
  from main_not_linked [OF db load, of rt]
  have f: "final_db (main env rt db data) = p_committed c' \<or>
           final_db (main env rt db data) = p_working c'"
    and ins: "inserted (executed (main env rt db data)) = inserted (p_log c')"
    and ret: "(\<exists>a b s. outcome (main env rt db data) = Inr (Import_complete a b s)) \<longrightarrow>
              (\<exists>y. import_loop env rt 0 convs c n = Inr y)"
    unfolding c'_def c_def n_def by blast+
  from import_loop_conn [of env rt 0 convs c n] obtain blocks where
    lg: "inserted (p_log c') = inserted (p_log c) @ concat blocks"
    and wk: "p_working c' = p_working c @ map (p_stored rt) (concat blocks)"
    and cm: "p_committed c' = p_committed c \<or>
      (\<exists>k \<le> length (concat blocks).
         p_committed c' = p_working c @ take k (map (p_stored rt) (concat blocks)))"
    and len: "length blocks \<le> length convs"
    and bl: "\<forall>j<length blocks. exchange_block env (0 + j) (convs ! j) (blocks ! j)"
    and wh: "(\<exists>y. import_loop env rt 0 convs c n = Inr y) \<longrightarrow>
        length blocks = length convs \<and>
        (\<forall>j<length blocks. whole_block env (convs ! j) (blocks ! j))"
    and ze: "(\<forall>c0\<in>set convs. zero_messages c0) \<longrightarrow> (\<forall>r\<in>set (concat blocks). \<not> linked r)"
    unfolding c'_def by blast
  have one: "inserted (executed (main env rt db data)) = concat blocks"
    using ins lg by (simp add: c_def)
  have two: "\<forall>j<length blocks.
        exchange_block env j (convs ! j) (blocks ! j) \<and>
        (blocks ! j \<noteq> [] \<longrightarrow>
           p_is_item (hd (blocks ! j)) = 0 \<and> p_conversation_id (hd (blocks ! j)) = SNull) \<and>
        (\<forall>r\<in>set (tl (blocks ! j)).
           p_is_item r = 1 \<and> p_conversation_id r = p_id (hd (blocks ! j)) \<and>
           (linked r \<longleftrightarrow> \<not> uuid_is_None (convs ! j)))"
  proof (intro allI impI)
    fix j assume "j < length blocks"
    with bl have b: "exchange_block env j (convs ! j) (blocks ! j)" by simp
    from b exchange_block_hd_tl [OF b] show
      "exchange_block env j (convs ! j) (blocks ! j) \<and>
        (blocks ! j \<noteq> [] \<longrightarrow>
           p_is_item (hd (blocks ! j)) = 0 \<and> p_conversation_id (hd (blocks ! j)) = SNull) \<and>
        (\<forall>r\<in>set (tl (blocks ! j)).
           p_is_item r = 1 \<and> p_conversation_id r = p_id (hd (blocks ! j)) \<and>
           (linked r \<longleftrightarrow> \<not> uuid_is_None (convs ! j)))"
      by (intro conjI) blast+
  qed
  have three: "(\<exists>a b s. outcome (main env rt db data) = Inr (Import_complete a b s)) \<longrightarrow>
        length blocks = length convs \<and>
        (\<forall>j<length blocks. whole_block env (convs ! j) (blocks ! j))"
    using ret wh by blast
  have four: "(\<forall>r\<in>set (final_db (main env rt db data)). \<not> linked r) \<and>
        (\<forall>env' rt' data' k.
           outcome (main env' rt' (final_db (main env rt db data)) data')
             \<noteq> Inr (Skipping_import k))"
    if z: "\<forall>c\<in>set convs. zero_messages c"
  proof -
    from ze z have nl: "\<forall>r\<in>set (concat blocks). \<not> linked r" by blast
    have wl: "\<forall>r\<in>set (p_working c'). \<not> linked r"
      using wk nl db by (auto simp: c_def)
    have cl: "\<forall>r\<in>set (p_committed c'). \<not> linked r"
    proof -
      from cm show ?thesis
      proof
        assume "p_committed c' = p_committed c"
        with db show ?thesis by (simp add: c_def)
      next
        assume "\<exists>k \<le> length (concat blocks).
          p_committed c' = p_working c @ take k (map (p_stored rt) (concat blocks))"
        then obtain k where
          k: "p_committed c' = p_working c @ take k (map (p_stored rt) (concat blocks))"
          by blast
        have "\<not> linked r" if "r \<in> set (take k (map (p_stored rt) (concat blocks)))" for r
        proof -
          from that have "r \<in> set (map (p_stored rt) (concat blocks))"
            by (rule in_set_takeD)
          then obtain r0 where "r0 \<in> set (concat blocks)" "r = p_stored rt r0"
            by auto
          with nl have "\<not> linked r0" by blast
          with \<open>r = p_stored rt r0\<close> show ?thesis by simp
        qed
        with db show ?thesis unfolding k by (auto simp: c_def)
      qed
    qed
    from f wl cl have fin: "\<forall>r\<in>set (final_db (main env rt db data)). \<not> linked r"
      by auto
    have "outcome (main env' rt' (final_db (main env rt db data)) data')
            \<noteq> Inr (Skipping_import k)" for env' rt' data' k
    proof (cases "load_conversations env' data'")
      case (Inl e)
      then show ?thesis by (simp add: main_def)
    next
      case (Inr convs')
      from main_not_linked [OF fin Inr, of rt'] show ?thesis by blast
    qed
    with fin show ?thesis by blast
  qed
  from one len two three four show ?thesis
    by (intro exI [of _ blocks] conjI impI) blast+
qed

subsection \<open>The example runs\<close>

lemma digits_0: "digits 0 = lit ''0''"
  by (simp add: digits.simps lit_def)

lemma load_empty_export: "load_conversations env0 empty_export = Inr [empty_conv]"
  by (simp add: load_conversations_def empty_export_def empty_conv_def env0_def
      dict_get_def EXCLUDE_IDS_def lit_def)

lemma zero_messages_empty_conv: "zero_messages empty_conv"
  by (simp add: zero_messages_def empty_conv_def dict_get_def lit_def)

lemma empty_conv_fields:
  "dict_get [(lit ''uuid'', JStr (lit ''c1'')), (lit ''name'', JStr (lit ''Empty''))]
     (lit ''uuid'') d = JStr (lit ''c1'')"
  "dict_get [(lit ''uuid'', JStr (lit ''c1'')), (lit ''name'', JStr (lit ''Empty''))]
     (lit ''name'') d = JStr (lit ''Empty'')"
  "dict_get [(lit ''uuid'', JStr (lit ''c1'')), (lit ''name'', JStr (lit ''Empty''))]
     (lit ''summary'') d = d"
  "dict_get [(lit ''uuid'', JStr (lit ''c1'')), (lit ''name'', JStr (lit ''Empty''))]
     (lit ''created_at'') d = d"
  "dict_get [(lit ''uuid'', JStr (lit ''c1'')), (lit ''name'', JStr (lit ''Empty''))]
     (lit ''updated_at'') d = d"
  "dict_get [(lit ''uuid'', JStr (lit ''c1'')), (lit ''name'', JStr (lit ''Empty''))]
     (lit ''chat_messages'') d = d"
  by (simp_all add: dict_get_def lit_def)

lemma parse_timestamp_env0: "parse_timestamp env0 (JStr []) = 0"
  by (simp add: parse_timestamp_def env0_def)

lemma pair_messages_Nil: "pair_messages env [] = Inr []"
  by (simp add: pair_messages_def pair_loop.simps)

lemma lit_Empty_truthy: "py_or (JStr (lit ''Empty'')) d = JStr (lit ''Empty'')"
  by (simp add: py_or_def lit_def)

lemma exchanges_0: "digits 0 @ lit '' exchanges'' = lit ''0 exchanges''"
  by (simp add: digits.simps lit_def)

lemma text_affinity_simps [simp]:
  "text_affinity rt (SText s) = SText s"
  "text_affinity rt SNull = SNull"
  by (simp_all add: text_affinity_def)

lemma p_stored_text: "p_id r = SText s \<Longrightarrow> p_stored rt r = r"
  by (simp add: p_stored_def)

lemma p_stored_rows [simp]:
  "p_stored rt container_row = container_row"
  "p_stored rt chat_row = chat_row"
  "p_stored rt chat_item0 = chat_item0"
  "p_stored rt chat_item1 = chat_item1"
  by (rule p_stored_text, simp add: container_row_def chat_row_def chat_item0_def
      chat_item1_def)+

lemma insert_empty_conv:
  "insert_conversation env0 rt0 0
      [(lit ''uuid'', JStr (lit ''c1'')), (lit ''name'', JStr (lit ''Empty''))]
      (JStr (lit ''c1'')) (SText (lit ''c1''))
      \<lparr>p_committed = [], p_working = [],
        p_log = [P_count_linked, P_select_id (SText (lit ''c1''))]\<rparr>
      \<lparr>conversations_imported = 0, exchanges_imported = 0, skipped = 0\<rparr> =
    Inr (\<lparr>p_committed = [], p_working = [container_row],
          p_log = [P_count_linked, P_select_id (SText (lit ''c1'')), P_insert container_row]\<rparr>,
         \<lparr>conversations_imported = 1, exchanges_imported = 0, skipped = 0\<rparr>)"
  by (simp add: insert_conversation_def empty_conv_fields parse_timestamp_env0
      pair_messages_Nil lit_Empty_truthy exchanges_0 p_insert_def
      container_row_def [symmetric])

lemma main_empty_export:
  "main env0 rt0 [] empty_export =
     \<lparr>final_db = [container_row],
      executed = [P_count_linked, P_select_id (SText (lit ''c1'')), P_insert container_row,
                  P_commit],
      outcome = Inr (Import_complete 1 0 0)\<rparr>"
proof -
  have ic: "import_conv env0 rt0 0 empty_conv
      \<lparr>p_committed = [], p_working = [], p_log = [P_count_linked]\<rparr>
      \<lparr>conversations_imported = 0, exchanges_imported = 0, skipped = 0\<rparr> =
    Inr (\<lparr>p_committed = [], p_working = [container_row],
          p_log = [P_count_linked, P_select_id (SText (lit ''c1'')), P_insert container_row]\<rparr>,
         \<lparr>conversations_imported = 1, exchanges_imported = 0, skipped = 0\<rparr>)"
    by (simp add: import_conv_def empty_conv_def empty_conv_fields p_select_id_def
        insert_empty_conv)
  show ?thesis
    by (simp add: main_def load_empty_export p_count_linked_def p_connect_def ic p_commit_def)
qed

lemma main_second_run:
  "main env0 rt0 [container_row] empty_export =
     \<lparr>final_db = [container_row],
      executed = [P_count_linked, P_select_id (SText (lit ''c1'')), P_commit],
      outcome = Inr (Import_complete 0 0 1)\<rparr>"
proof -
  have nl: "\<not> linked container_row" by (simp add: linked_def container_row_def)
  have ic: "import_conv env0 rt0 0 empty_conv
      \<lparr>p_committed = [container_row], p_working = [container_row], p_log = [P_count_linked]\<rparr>
      \<lparr>conversations_imported = 0, exchanges_imported = 0, skipped = 0\<rparr> =
    Inr (\<lparr>p_committed = [container_row], p_working = [container_row],
          p_log = [P_count_linked, P_select_id (SText (lit ''c1''))]\<rparr>,
         \<lparr>conversations_imported = 0, exchanges_imported = 0, skipped = 1\<rparr>)"
    by (simp add: import_conv_def empty_conv_def empty_conv_fields
        p_select_id_def container_row_def)
  show ?thesis
    by (simp add: main_def load_empty_export p_count_linked_def p_connect_def ic p_commit_def nl)
qed

theorem main_skips_when_linked_witness:
  "linked item_row \<and>
   final_db (main env0 rt0 [container_row, item_row] empty_export) = [container_row, item_row] \<and>
   inserted (executed (main env0 rt0 [container_row, item_row] empty_export)) = [] \<and>
   outcome (main env0 rt0 [container_row, item_row] empty_export) = Inr (Skipping_import 1)"
proof -
  have l: "linked item_row" "\<not> linked container_row"
    by (simp_all add: linked_def item_row_def container_row_def)
  then have "\<exists>r\<in>set [container_row, item_row]. linked r" by simp
  from main_skips_when_linked [OF this, of env0 rt0 empty_export] l
  show ?thesis by (simp add: load_empty_export)
qed

text \<open>The run on the conversation with two exchanges.\<close>

lemma load_chat_export: "load_conversations env0 chat_export = Inr [chat_conv]"
  by (simp add: load_conversations_def chat_export_def chat_conv_def env0_def
      dict_get_def EXCLUDE_IDS_def lit_def)

lemma chat_conv_fields:
  "dict_get [(lit ''uuid'', JStr (lit ''c1'')), (lit ''name'', JStr (lit ''Chat'')),
             (lit ''chat_messages'', JArr three_msgs)] (lit ''uuid'') d = JStr (lit ''c1'')"
  "dict_get [(lit ''uuid'', JStr (lit ''c1'')), (lit ''name'', JStr (lit ''Chat'')),
             (lit ''chat_messages'', JArr three_msgs)] (lit ''name'') d = JStr (lit ''Chat'')"
  "dict_get [(lit ''uuid'', JStr (lit ''c1'')), (lit ''name'', JStr (lit ''Chat'')),
             (lit ''chat_messages'', JArr three_msgs)] (lit ''summary'') d = d"
  "dict_get [(lit ''uuid'', JStr (lit ''c1'')), (lit ''name'', JStr (lit ''Chat'')),
             (lit ''chat_messages'', JArr three_msgs)] (lit ''created_at'') d = d"
  "dict_get [(lit ''uuid'', JStr (lit ''c1'')), (lit ''name'', JStr (lit ''Chat'')),
             (lit ''chat_messages'', JArr three_msgs)] (lit ''updated_at'') d = d"
  "dict_get [(lit ''uuid'', JStr (lit ''c1'')), (lit ''name'', JStr (lit ''Chat'')),
             (lit ''chat_messages'', JArr three_msgs)] (lit ''chat_messages'') d
     = JArr three_msgs"
  by (simp_all add: dict_get_def lit_def)

lemma lit_Chat_truthy: "py_or (JStr (lit ''Chat'')) d = JStr (lit ''Chat'')"
  by (simp add: py_or_def lit_def)

lemma exchanges_2: "digits 2 @ lit '' exchanges'' = lit ''2 exchanges''"
  by (simp add: digits.simps lit_def)

lemma chat_row_ids:
  "p_id chat_row = SText (lit ''c1'')"
  "p_id chat_item0 = SText (lit ''c1-ex-0'')"
  "p_id chat_item1 = SText (lit ''c1-ex-1'')"
  by (simp_all add: chat_row_def chat_item0_def chat_item1_def)

lemma chat_item_ids:
  "lit ''c1'' @ lit ''-ex-'' @ digits 0 = lit ''c1-ex-0''"
  "lit ''c1'' @ lit ''-ex-'' @ digits (Suc 0) = lit ''c1-ex-1''"
  "lit ''c1-ex-0'' \<noteq> lit ''c1''"
  "lit ''c1-ex-1'' \<noteq> lit ''c1''"
  "lit ''c1-ex-1'' \<noteq> lit ''c1-ex-0''"
  by (simp_all add: digits.simps lit_def)

lemma insert_chat_item0:
  "p_insert rt0
      \<lparr>p_committed = [], p_working = [chat_row],
        p_log = [P_count_linked, P_select_id (SText (lit ''c1'')), P_insert chat_row]\<rparr>
      chat_item0 =
    Inr \<lparr>p_committed = [], p_working = [chat_row, chat_item0],
          p_log = [P_count_linked, P_select_id (SText (lit ''c1'')), P_insert chat_row,
                   P_insert chat_item0]\<rparr>"
  by (simp add: p_insert_def chat_row_ids chat_item_ids)

lemma insert_chat_item1:
  "p_insert rt0
      \<lparr>p_committed = [], p_working = [chat_row, chat_item0],
          p_log = [P_count_linked, P_select_id (SText (lit ''c1'')), P_insert chat_row,
                   P_insert chat_item0]\<rparr>
      chat_item1 =
    Inr \<lparr>p_committed = [], p_working = [chat_row, chat_item0, chat_item1],
          p_log = [P_count_linked, P_select_id (SText (lit ''c1'')), P_insert chat_row,
                   P_insert chat_item0, P_insert chat_item1]\<rparr>"
  by (simp add: p_insert_def chat_row_ids chat_item_ids)

lemma insert_chat_exchanges:
  "insert_exchanges env0 rt0 (JStr (lit ''c1'')) (SText (lit ''c1'')) 0
      [\<lparr>title = lit ''Q'', content = lit ''Human: Q'' @ [10, 10] @ lit ''Assistant: A'',
            created_at = 0\<rparr>,
       \<lparr>title = lit ''B'', content = lit ''Assistant: B'', created_at = 0\<rparr>]
      \<lparr>p_committed = [], p_working = [chat_row],
        p_log = [P_count_linked, P_select_id (SText (lit ''c1'')), P_insert chat_row]\<rparr> 0 =
    Inr (\<lparr>p_committed = [], p_working = [chat_row, chat_item0, chat_item1],
          p_log = [P_count_linked, P_select_id (SText (lit ''c1'')), P_insert chat_row,
                   P_insert chat_item0, P_insert chat_item1]\<rparr>, 2)"
proof -
  have r0: "\<lparr>p_id = SText (py_format env0 (JStr (lit ''c1'')) @ lit ''-ex-'' @ digits 0),
         p_type = lit ''thought'',
         p_title = SText (title \<lparr>title = lit ''Q'',
            content = lit ''Human: Q'' @ [10, 10] @ lit ''Assistant: A'', created_at = 0\<rparr>),
         p_content = content \<lparr>title = lit ''Q'',
            content = lit ''Human: Q'' @ [10, 10] @ lit ''Assistant: A'', created_at = 0\<rparr>,
         p_created_at = created_at \<lparr>title = lit ''Q'',
            content = lit ''Human: Q'' @ [10, 10] @ lit ''Assistant: A'', created_at = 0\<rparr>,
         p_updated_at = created_at \<lparr>title = lit ''Q'',
            content = lit ''Human: Q'' @ [10, 10] @ lit ''Assistant: A'', created_at = 0\<rparr>,
         p_summary = SNull, p_is_item = 1,
         p_child_count = 0, p_conversation_id = SText (lit ''c1''),
         p_sequence_index = SInt (int 0)\<rparr> = chat_item0"
    by (simp add: chat_item0_def chat_item_ids)
  have r1: "\<lparr>p_id = SText (py_format env0 (JStr (lit ''c1'')) @ lit ''-ex-'' @ digits (0 + 1)),
         p_type = lit ''thought'',
         p_title = SText (title \<lparr>title = lit ''B'', content = lit ''Assistant: B'',
            created_at = 0\<rparr>),
         p_content = content \<lparr>title = lit ''B'', content = lit ''Assistant: B'',
            created_at = 0\<rparr>,
         p_created_at = created_at \<lparr>title = lit ''B'', content = lit ''Assistant: B'',
            created_at = 0\<rparr>,
         p_updated_at = created_at \<lparr>title = lit ''B'', content = lit ''Assistant: B'',
            created_at = 0\<rparr>,
         p_summary = SNull, p_is_item = 1,
         p_child_count = 0, p_conversation_id = SText (lit ''c1''),
         p_sequence_index = SInt (int (0 + 1))\<rparr> = chat_item1"
    by (simp add: chat_item1_def chat_item_ids)
  show ?thesis
    unfolding insert_exchanges.simps r0 r1 insert_chat_item0
    by (simp add: insert_chat_item1)
qed

lemma insert_chat_conv:
  "insert_conversation env0 rt0 0
      [(lit ''uuid'', JStr (lit ''c1'')), (lit ''name'', JStr (lit ''Chat'')),
       (lit ''chat_messages'', JArr three_msgs)]
      (JStr (lit ''c1'')) (SText (lit ''c1''))
      \<lparr>p_committed = [], p_working = [],
        p_log = [P_count_linked, P_select_id (SText (lit ''c1''))]\<rparr>
      \<lparr>conversations_imported = 0, exchanges_imported = 0, skipped = 0\<rparr> =
    Inr (\<lparr>p_committed = [], p_working = [chat_row, chat_item0, chat_item1],
          p_log = [P_count_linked, P_select_id (SText (lit ''c1'')), P_insert chat_row,
                   P_insert chat_item0, P_insert chat_item1]\<rparr>,
         \<lparr>conversations_imported = 1, exchanges_imported = 2, skipped = 0\<rparr>)"
proof -
  define exs where "exs =
      [\<lparr>title = lit ''Q'', content = lit ''Human: Q'' @ [10, 10] @ lit ''Assistant: A'',
            created_at = 0\<rparr>,
       \<lparr>title = lit ''B'', content = lit ''Assistant: B'', created_at = 0\<rparr>]"
  have pm: "pair_messages env0 three_msgs = Inr exs"
    unfolding exs_def by (rule pair_messages_three)
  have len: "length exs = 2" by (simp add: exs_def)
  note ie = insert_chat_exchanges [folded exs_def]
  have c: "\<lparr>p_id = SText (lit ''c1''), p_type = lit ''context'', p_title = SText (lit ''Chat''),
      p_content = lit ''2 exchanges'', p_created_at = 0, p_updated_at = 0,
      p_summary = SNull, p_is_item = 0, p_child_count = 2,
      p_conversation_id = SNull, p_sequence_index = SNull\<rparr> = chat_row"
    by (simp add: chat_row_def)
  have ins: "p_insert rt0
      \<lparr>p_committed = [], p_working = [],
        p_log = [P_count_linked, P_select_id (SText (lit ''c1''))]\<rparr> chat_row =
     Inr \<lparr>p_committed = [], p_working = [chat_row],
        p_log = [P_count_linked, P_select_id (SText (lit ''c1'')), P_insert chat_row]\<rparr>"
    by (simp add: p_insert_def)
  show ?thesis
    by (simp add: insert_conversation_def chat_conv_fields parse_timestamp_env0
      pm len lit_Chat_truthy exchanges_2 c ins ie)
qed

lemma main_chat_export:
  "main env0 rt0 [] chat_export =
     \<lparr>final_db = [chat_row, chat_item0, chat_item1],
      executed = [P_count_linked, P_select_id (SText (lit ''c1'')), P_insert chat_row,
                  P_insert chat_item0, P_insert chat_item1, P_commit],
      outcome = Inr (Import_complete 1 2 0)\<rparr>"
proof -
  have ic: "import_conv env0 rt0 0 chat_conv
      \<lparr>p_committed = [], p_working = [], p_log = [P_count_linked]\<rparr>
      \<lparr>conversations_imported = 0, exchanges_imported = 0, skipped = 0\<rparr> =
    Inr (\<lparr>p_committed = [], p_working = [chat_row, chat_item0, chat_item1],
          p_log = [P_count_linked, P_select_id (SText (lit ''c1'')), P_insert chat_row,
                   P_insert chat_item0, P_insert chat_item1]\<rparr>,
         \<lparr>conversations_imported = 1, exchanges_imported = 2, skipped = 0\<rparr>)"
    by (simp add: import_conv_def chat_conv_def chat_conv_fields p_select_id_def
        insert_chat_conv)
  show ?thesis
    by (simp add: main_def load_chat_export p_count_linked_def p_connect_def ic p_commit_def)
qed

theorem conversation_links_witness:
  "load_conversations env0 chat_export = Inr [chat_conv] \<and>
   inserted (executed (main env0 rt0 [] chat_export)) = [chat_row, chat_item0, chat_item1] \<and>
   outcome (main env0 rt0 [] chat_export) = Inr (Import_complete 1 2 0) \<and>
   exchange_block env0 0 chat_conv [chat_row, chat_item0, chat_item1] \<and>
   whole_block env0 chat_conv [chat_row, chat_item0, chat_item1] \<and>
   p_is_item chat_row = 0 \<and> p_conversation_id chat_row = SNull \<and>
   p_is_item chat_item0 = 1 \<and> p_conversation_id chat_item0 = p_id chat_row \<and>
   p_is_item chat_item1 = 1 \<and> p_conversation_id chat_item1 = p_id chat_row \<and>
   linked chat_item0 \<and> linked chat_item1 \<and> \<not> uuid_is_None chat_conv \<and>
   load_conversations env0 empty_export = Inr [empty_conv] \<and> zero_messages empty_conv \<and>
   final_db (main env0 rt0 [] empty_export) = [container_row] \<and>
   \<not> linked container_row \<and>
   outcome (main env0 rt0 (final_db (main env0 rt0 [] empty_export)) empty_export)
     = Inr (Import_complete 0 0 1)"
proof -
  let ?rows = "[chat_row, chat_item0, chat_item1]"
  from conversation_links [OF load_chat_export, of rt0 "[]"] obtain blocks where
    cc: "inserted (executed (main env0 rt0 [] chat_export)) = concat blocks"
    and len: "length blocks \<le> length [chat_conv]"
    and bl: "\<forall>j<length blocks.
        exchange_block env0 j ([chat_conv] ! j) (blocks ! j) \<and>
        (blocks ! j \<noteq> [] \<longrightarrow>
           p_is_item (hd (blocks ! j)) = 0 \<and> p_conversation_id (hd (blocks ! j)) = SNull) \<and>
        (\<forall>r\<in>set (tl (blocks ! j)).
           p_is_item r = 1 \<and> p_conversation_id r = p_id (hd (blocks ! j)) \<and>
           (linked r \<longleftrightarrow> \<not> uuid_is_None ([chat_conv] ! j)))"
    and wh: "(\<exists>a b s. outcome (main env0 rt0 [] chat_export) = Inr (Import_complete a b s)) \<longrightarrow>
        length blocks = length [chat_conv] \<and>
        (\<forall>j<length blocks. whole_block env0 ([chat_conv] ! j) (blocks ! j))"
    by blast
  have ins: "inserted (executed (main env0 rt0 [] chat_export)) = ?rows"
    by (simp add: main_chat_export inserted_def)
  have out: "outcome (main env0 rt0 [] chat_export) = Inr (Import_complete 1 2 0)"
    by (simp add: main_chat_export)
  from cc ins have "concat blocks = ?rows" by simp
  then have "blocks \<noteq> []" by auto
  with len obtain b where b: "blocks = [b]"
    by (cases blocks) auto
  with \<open>concat blocks = ?rows\<close> have blocks: "blocks = [?rows]" by simp
  from bl blocks have
    e: "exchange_block env0 0 chat_conv ?rows"
    and h: "p_is_item chat_row = 0 \<and> p_conversation_id chat_row = SNull"
    and t: "\<forall>r\<in>set [chat_item0, chat_item1].
           p_is_item r = 1 \<and> p_conversation_id r = p_id chat_row \<and>
           (linked r \<longleftrightarrow> \<not> uuid_is_None chat_conv)"
    by simp_all
  from wh out blocks have w: "whole_block env0 chat_conv ?rows" by simp
  have u: "\<not> uuid_is_None chat_conv"
    by (simp add: uuid_is_None_def chat_conv_def lit_def)
  have h2: "(\<forall>r\<in>set []. \<not> linked r) \<and> (\<forall>c\<in>set [empty_conv]. zero_messages c)"
    by (simp add: zero_messages_empty_conv)
  from conversation_links [OF load_empty_export, of rt0 "[]"] h2
  have "\<forall>r\<in>set (final_db (main env0 rt0 [] empty_export)). \<not> linked r"
    by blast
  then have nl: "\<not> linked container_row" by (simp add: main_empty_export)
  from ins out e w h t u nl show ?thesis
    by (simp add: load_chat_export load_empty_export zero_messages_empty_conv
        main_empty_export main_second_run)
qed

subsection \<open>Identifiers that are numbers\<close>

lemma str_int_5: "str_int 5 = lit ''5''"
  by (simp add: str_int_def digits.simps lit_def)

lemma five_fields:
  "dict_get [(lit ''uuid'', v)] (lit ''uuid'') d = v"
  "dict_get [(lit ''uuid'', v)] (lit ''name'') d = d"
  "dict_get [(lit ''uuid'', v)] (lit ''summary'') d = d"
  "dict_get [(lit ''uuid'', v)] (lit ''created_at'') d = d"
  "dict_get [(lit ''uuid'', v)] (lit ''updated_at'') d = d"
  "dict_get [(lit ''uuid'', v)] (lit ''chat_messages'') d = d"
  "map_of [(lit ''uuid'', v)] (lit ''uuid'') = Some v"
  by (simp_all add: dict_get_def lit_def)

lemma load_five_export:
  "load_conversations env0 five_export
     = Inr [JObj [(lit ''uuid'', JInt 5)], JObj [(lit ''uuid'', JStr (lit ''5''))]]"
  by (simp add: load_conversations_def five_export_def env0_def five_fields EXCLUDE_IDS_def)
     (simp add: lit_def)

text \<open>
  The pairing importer takes the number 5 and the text \<open>5\<close> for the same identifier: the
  second conversation is skipped.
\<close>

lemma main_five_export:
  "outcome (main env0 rt0 [] five_export) = Inr (Import_complete 1 0 1)"
proof -
  define row where "row =
     \<lparr>p_id = SInt 5, p_type = lit ''context'', p_title = SText (lit ''Untitled''),
      p_content = lit ''0 exchanges'', p_created_at = 0, p_updated_at = 0,
      p_summary = SNull, p_is_item = 0, p_child_count = 0,
      p_conversation_id = SNull, p_sequence_index = SNull\<rparr>"
  have st: "p_stored rt0 row = row\<lparr>p_id := SText (lit ''5'')\<rparr>"
    by (simp add: p_stored_def row_def text_affinity_def str_int_5)
  have un: "py_or JNull (JStr (lit ''Untitled'')) = JStr (lit ''Untitled'')"
    by (simp add: py_or_def)
  have i1: "import_conv env0 rt0 0 (JObj [(lit ''uuid'', JInt 5)])
      \<lparr>p_committed = [], p_working = [], p_log = [P_count_linked]\<rparr>
      \<lparr>conversations_imported = 0, exchanges_imported = 0, skipped = 0\<rparr> =
    Inr (\<lparr>p_committed = [], p_working = [row\<lparr>p_id := SText (lit ''5'')\<rparr>],
          p_log = [P_count_linked, P_select_id (SInt 5), P_insert row]\<rparr>,
         \<lparr>conversations_imported = 1, exchanges_imported = 0, skipped = 0\<rparr>)"
    by (simp add: import_conv_def five_fields p_select_id_def insert_conversation_def
        parse_timestamp_env0 pair_messages_Nil un exchanges_0 p_insert_def
        row_def [symmetric] st)
  have i2: "import_conv env0 rt0 (Suc 0) (JObj [(lit ''uuid'', JStr (lit ''5''))])
      \<lparr>p_committed = [], p_working = [row\<lparr>p_id := SText (lit ''5'')\<rparr>],
          p_log = [P_count_linked, P_select_id (SInt 5), P_insert row]\<rparr>
      \<lparr>conversations_imported = Suc 0, exchanges_imported = 0, skipped = 0\<rparr> =
    Inr (\<lparr>p_committed = [], p_working = [row\<lparr>p_id := SText (lit ''5'')\<rparr>],
          p_log = [P_count_linked, P_select_id (SInt 5), P_insert row,
                   P_select_id (SText (lit ''5''))]\<rparr>,
         \<lparr>conversations_imported = 1, exchanges_imported = 0, skipped = 1\<rparr>)"
    by (simp add: import_conv_def five_fields p_select_id_def)
  show ?thesis
    by (simp add: main_def load_five_export p_count_linked_def p_connect_def i1 i2 p_commit_def)
qed

section \<open>Properties of the flat importer\<close>

subsection \<open>The rows built in memory\<close>

lemma lit_human_not_Nil: "lit ''human'' \<noteq> []"
  by (simp add: lit_def)

lemma sender_human_iff:
  "dict_get msg (lit ''sender'') JNull = JStr (lit ''human'') \<longleftrightarrow> is_human (JObj msg)"
  using lit_human_not_Nil
  by (auto simp: is_human_def dict_get_def split: option.splits)

lemma count_human_Inr:
  "count_human ms = Inr k \<Longrightarrow> k = length (filter is_human ms)"
proof (induction ms arbitrary: k)
  case Nil
  then show ?case by simp
next
  case (Cons m rest)
  then show ?case
    by (cases m) (auto simp: sender_human_iff split: sum.splits if_splits)
qed

lemma message_rows_Inr:
  assumes "message_rows env conv_id ms ns es = Inr (N, E)"
  shows "\<exists>mn me. N = ns @ mn \<and> E = es @ me \<and>
           length mn = length (filter is_human ms) \<and> length me = length mn \<and>
           (\<forall>x\<in>set mn. n_type x = lit ''thought'' \<and> n_parent_id x = conv_id) \<and>
           (\<forall>e\<in>set me. e_type e = lit ''contains'' \<and> e_source_id e = conv_id \<and>
              (\<exists>x\<in>set mn. n_type x = lit ''thought'' \<and> n_id x = e_target_id e)) \<and>
           map e_id me = map (uuid4 env) [length es..<length es + length me]"
  using assms
proof (induction ms arbitrary: ns es)
  case Nil
  then show ?case by simp
next
  case (Cons m rest)
  from Cons.prems obtain msg where m: "m = JObj msg"
    by (cases m) simp_all
  show ?case
  proof (cases "dict_get msg (lit ''sender'') JNull = JStr (lit ''human'')")
    case False
    with Cons.prems m have "message_rows env conv_id rest ns es = Inr (N, E)" by simp
    from Cons.IH [OF this] show ?thesis
      using False m by (simp add: sender_human_iff)
  next
    case True
    with Cons.prems m obtain msg_id t where id: "map_of msg (lit ''uuid'') = Some msg_id"
      and t: "message_title msg = Inr t"
      by (auto split: option.splits sum.splits)
    define nd :: "json node" where "nd = \<lparr>n_id = msg_id, n_type = lit ''thought'', n_title = t,
                                 n_content = dict_get msg (lit ''text'') JNull,
                                 n_created_at =
                                   parse_timestamp env (dict_get msg (lit ''created_at'') (JStr [])),
                                 n_updated_at =
                                   parse_timestamp env (dict_get msg (lit ''updated_at'') (JStr [])),
                                 n_level = 4, n_parent_id = conv_id, n_child_count = 0\<rparr>"
    define ed :: "json edge" where "ed = \<lparr>e_id = uuid4 env (length es), e_source_id = conv_id,
                                 e_target_id = msg_id, e_type = lit ''contains'',
                                 e_created_at =
                                   parse_timestamp env
                                     (dict_get msg (lit ''created_at'') (JStr []))\<rparr>"
    from Cons.prems m True id t
    have "message_rows env conv_id rest (ns @ [nd]) (es @ [ed]) = Inr (N, E)"
      by (simp add: nd_def ed_def)
    from Cons.IH [OF this] obtain mn me where
      N: "N = (ns @ [nd]) @ mn" and E: "E = (es @ [ed]) @ me"
      and lmn: "length mn = length (filter is_human rest)" and lme: "length me = length mn"
      and pn: "\<forall>x\<in>set mn. n_type x = lit ''thought'' \<and> n_parent_id x = conv_id"
      and pe: "\<forall>e\<in>set me. e_type e = lit ''contains'' \<and> e_source_id e = conv_id \<and>
              (\<exists>x\<in>set mn. n_type x = lit ''thought'' \<and> n_id x = e_target_id e)"
      and ids: "map e_id me = map (uuid4 env) [length (es @ [ed])..<length (es @ [ed]) + length me]"
      by blast
    have hum: "is_human m" using True m by (simp add: sender_human_iff)
    have ids': "map e_id (ed # me) = map (uuid4 env) [length es..<length es + length (ed # me)]"
    proof -
      have "[length es..<length es + length (ed # me)]
          = length es # [Suc (length es)..<Suc (length es) + length me]"
        by (simp add: upt_rec)
      then show ?thesis using ids by (simp add: ed_def)
    qed
    show ?thesis
    proof (intro exI [of _ "nd # mn"] exI [of _ "ed # me"] conjI)
      show "N = ns @ nd # mn" using N by simp
      show "E = es @ ed # me" using E by simp
      show "length (nd # mn) = length (filter is_human (m # rest))" using lmn hum by simp
      show "length (ed # me) = length (nd # mn)" using lme by simp
      show "\<forall>x\<in>set (nd # mn). n_type x = lit ''thought'' \<and> n_parent_id x = conv_id"
        using pn by (simp add: nd_def)
      show "\<forall>e\<in>set (ed # me). e_type e = lit ''contains'' \<and> e_source_id e = conv_id \<and>
              (\<exists>x\<in>set (nd # mn). n_type x = lit ''thought'' \<and> n_id x = e_target_id e)"
        using pe by (auto simp: nd_def ed_def)
      show "map e_id (ed # me) = map (uuid4 env) [length es..<length es + length (ed # me)]"
        by (rule ids')
    qed
  qed
qed

text \<open>The edges of one conversation, among the nodes of that conversation.\<close>

lemma conv_rows_Inr:
  assumes "conv_rows env c0 ns es = Inr (N, E)"
  shows "\<exists>blk me. N = ns @ blk \<and> E = es @ me \<and> conv_block c0 blk \<and>
           length me = human_messages c0 \<and>
           (\<forall>e\<in>set me. contains_edge blk e) \<and>
           map e_id me = map (uuid4 env) [length es..<length es + length me]"
proof -
  from assms obtain conv where c0: "c0 = JObj conv"
    by (cases c0) (simp_all add: conv_rows_def)
  from assms c0 obtain conv_id messages child_count where
    id: "map_of conv (lit ''uuid'') = Some conv_id"
    and it: "py_iter (dict_get conv (lit ''chat_messages'') (JArr [])) = Inr messages"
    and ch: "count_human messages = Inr child_count"
    by (auto simp: conv_rows_def split: option.splits sum.splits)
  define cn :: "json node" where "cn = \<lparr>n_id = conv_id, n_type = lit ''context'',
                                    n_title = py_or (dict_get conv (lit ''name'') JNull)
                                                (JStr (lit ''Untitled'')),
                                    n_content = dict_get conv (lit ''summary'') JNull,
                                    n_created_at =
                                      parse_timestamp env
                                        (dict_get conv (lit ''created_at'') (JStr [])),
                                    n_updated_at =
                                      parse_timestamp env
                                        (dict_get conv (lit ''updated_at'') (JStr [])),
                                    n_level = 3, n_parent_id = JNull,
                                    n_child_count = child_count\<rparr>"
  from assms c0 id it ch have "message_rows env conv_id messages (ns @ [cn]) es = Inr (N, E)"
    by (simp add: conv_rows_def cn_def)
  from message_rows_Inr [OF this] obtain mn me where
    N: "N = (ns @ [cn]) @ mn" and E: "E = es @ me"
    and lmn: "length mn = length (filter is_human messages)" and lme: "length me = length mn"
    and pn: "\<forall>x\<in>set mn. n_type x = lit ''thought'' \<and> n_parent_id x = conv_id"
    and pe: "\<forall>e\<in>set me. e_type e = lit ''contains'' \<and> e_source_id e = conv_id \<and>
              (\<exists>x\<in>set mn. n_type x = lit ''thought'' \<and> n_id x = e_target_id e)"
    and ids: "map e_id me = map (uuid4 env) [length es..<length es + length me]"
    by blast
  have hm: "human_messages c0 = length (filter is_human messages)"
    using c0 it by (simp add: human_messages_def)
  have cc: "child_count = length (filter is_human messages)"
    using ch by (rule count_human_Inr)
  have blk: "conv_block c0 (cn # mn)"
    unfolding conv_block_def using pn lmn hm cc
    by (intro exI [of _ cn] exI [of _ mn]) (simp add: cn_def)
  have ce: "\<forall>e\<in>set me. contains_edge (cn # mn) e"
    unfolding contains_edge_def using pe by (auto simp: cn_def)
  show ?thesis
    using N E blk ce ids lme lmn hm
    by (intro exI [of _ "cn # mn"] exI [of _ me]) simp
qed

lemma contains_edge_mono:
  "contains_edge ns e \<Longrightarrow> set ns \<subseteq> set ns' \<Longrightarrow> contains_edge ns' e"
  unfolding contains_edge_def by blast

lemma build_rows_Inr:
  assumes "build_rows env convs ns es = Inr (N, E)"
  shows "\<exists>blocks me. N = ns @ concat blocks \<and> E = es @ me \<and>
           list_all2 conv_block convs blocks \<and>
           length me = sum_list (map human_messages convs) \<and>
           (\<forall>e\<in>set me. contains_edge (concat blocks) e) \<and>
           map e_id me = map (uuid4 env) [length es..<length es + length me]"
  using assms
proof (induction convs arbitrary: ns es)
  case Nil
  then show ?case by simp
next
  case (Cons c0 rest)
  from Cons.prems obtain N1 E1 where c: "conv_rows env c0 ns es = Inr (N1, E1)"
    and r: "build_rows env rest N1 E1 = Inr (N, E)"
    by (auto split: sum.splits)
  from conv_rows_Inr [OF c] obtain blk me1 where
    N1: "N1 = ns @ blk" and E1: "E1 = es @ me1" and b: "conv_block c0 blk"
    and l1: "length me1 = human_messages c0"
    and ce1: "\<forall>e\<in>set me1. contains_edge blk e"
    and ids1: "map e_id me1 = map (uuid4 env) [length es..<length es + length me1]"
    by blast
  from Cons.IH [OF r] obtain blocks me2 where
    N: "N = N1 @ concat blocks" and E: "E = E1 @ me2"
    and bs: "list_all2 conv_block rest blocks"
    and l2: "length me2 = sum_list (map human_messages rest)"
    and ce2: "\<forall>e\<in>set me2. contains_edge (concat blocks) e"
    and ids2: "map e_id me2 = map (uuid4 env) [length E1..<length E1 + length me2]"
    by blast
  have ids: "map e_id (me1 @ me2)
      = map (uuid4 env) [length es..<length es + length (me1 @ me2)]"
  proof -
    have "[length es..<length es + length (me1 @ me2)]
        = [length es..<length es + length me1] @
          [length es + length me1..<length es + length me1 + length me2]"
      using upt_add_eq_append [of "length es" "length es + length me1" "length me2"]
      by (simp add: add.assoc)
    then show ?thesis using ids1 ids2 E1 by simp
  qed
  have ce: "\<forall>e\<in>set (me1 @ me2). contains_edge (concat (blk # blocks)) e"
  proof
    fix e assume "e \<in> set (me1 @ me2)"
    then consider "e \<in> set me1" | "e \<in> set me2" by auto
    then show "contains_edge (concat (blk # blocks)) e"
    proof cases
      case 1
      with ce1 have "contains_edge blk e" by blast
      then show ?thesis by (rule contains_edge_mono) simp
    next
      case 2
      with ce2 have "contains_edge (concat blocks) e" by blast
      then show ?thesis by (rule contains_edge_mono) simp
    qed
  qed
  show ?case
    using N N1 E E1 b bs l1 l2 ce ids
    by (intro exI [of _ "blk # blocks"] exI [of _ "me1 @ me2"]) simp
qed

lemma conv_block_length:
  "list_all2 conv_block convs blocks \<Longrightarrow>
   length (concat blocks) = length convs + sum_list (map human_messages convs)"
  by (induction convs blocks rule: list_all2_induct) (auto simp: conv_block_def)

subsection \<open>The rows inserted\<close>

lemma insert_node_Inr:
  assumes "insert_node rt c d = Inr c'"
  shows "\<exists>r. bind_node rt d = Inr r \<and>
           nodes (f_working c') = nodes (f_working c) @ [r] \<and>
           edges (f_working c') = edges (f_working c) \<and>
           f_log c' = f_log c @ [Insert_node r] \<and> f_committed c' = f_committed c"
  using assms by (auto simp: insert_node_def split: sum.splits if_splits)

lemma insert_edge_Inr:
  assumes "insert_edge rt c d = Inr c'"
  shows "\<exists>r. bind_edge rt d = Inr r \<and>
           edges (f_working c') = edges (f_working c) @ [r] \<and>
           nodes (f_working c') = nodes (f_working c) \<and>
           f_log c' = f_log c @ [Insert_edge r] \<and> f_committed c' = f_committed c"
  using assms by (auto simp: insert_edge_def split: sum.splits if_splits)

lemma executemany_nodes_Inr:
  assumes "executemany_nodes rt c ds = Inr c'"
  shows "\<exists>rows. list_all2 (\<lambda>d r. bind_node rt d = Inr r) ds rows \<and>
           nodes (f_working c') = nodes (f_working c) @ rows \<and>
           edges (f_working c') = edges (f_working c) \<and>
           f_log c' = f_log c @ map Insert_node rows \<and> f_committed c' = f_committed c"
  using assms
proof (induction ds arbitrary: c)
  case Nil
  then show ?case by simp
next
  case (Cons d ds)
  from Cons.prems obtain c1 where i: "insert_node rt c d = Inr c1"
    and r: "executemany_nodes rt c1 ds = Inr c'"
    by (auto split: sum.splits)
  from insert_node_Inr [OF i] obtain r1 where r1: "bind_node rt d = Inr r1"
    "nodes (f_working c1) = nodes (f_working c) @ [r1]"
    "edges (f_working c1) = edges (f_working c)"
    "f_log c1 = f_log c @ [Insert_node r1]" "f_committed c1 = f_committed c"
    by blast
  from Cons.IH [OF r] obtain rows where rows:
    "list_all2 (\<lambda>d r. bind_node rt d = Inr r) ds rows"
    "nodes (f_working c') = nodes (f_working c1) @ rows"
    "edges (f_working c') = edges (f_working c1)"
    "f_log c' = f_log c1 @ map Insert_node rows" "f_committed c' = f_committed c1"
    by blast
  from r1 rows show ?case
    by (intro exI [of _ "r1 # rows"]) simp
qed

lemma executemany_edges_Inr:
  assumes "executemany_edges rt c ds = Inr c'"
  shows "\<exists>rows. list_all2 (\<lambda>d r. bind_edge rt d = Inr r) ds rows \<and>
           edges (f_working c') = edges (f_working c) @ rows \<and>
           nodes (f_working c') = nodes (f_working c) \<and>
           f_log c' = f_log c @ map Insert_edge rows \<and> f_committed c' = f_committed c"
  using assms
proof (induction ds arbitrary: c)
  case Nil
  then show ?case by simp
next
  case (Cons d ds)
  from Cons.prems obtain c1 where i: "insert_edge rt c d = Inr c1"
    and r: "executemany_edges rt c1 ds = Inr c'"
    by (auto split: sum.splits)
  from insert_edge_Inr [OF i] obtain r1 where r1: "bind_edge rt d = Inr r1"
    "edges (f_working c1) = edges (f_working c) @ [r1]"
    "nodes (f_working c1) = nodes (f_working c)"
    "f_log c1 = f_log c @ [Insert_edge r1]" "f_committed c1 = f_committed c"
    by blast
  from Cons.IH [OF r] obtain rows where rows:
    "list_all2 (\<lambda>d r. bind_edge rt d = Inr r) ds rows"
    "edges (f_working c') = edges (f_working c1) @ rows"
    "nodes (f_working c') = nodes (f_working c1)"
    "f_log c' = f_log c1 @ map Insert_edge rows" "f_committed c' = f_committed c1"
    by blast
  from r1 rows show ?case
    by (intro exI [of _ "r1 # rows"]) simp
qed

text \<open>What a call that returns has done.\<close>

lemma import_conversations_Inr:
  assumes "import_conversations env rt conn data = (Inr (n, m), c')"
  shows "\<exists>convs ns es N E.
           py_iter data = Inr convs \<and> build_rows env convs [] [] = Inr (ns, es) \<and>
           list_all2 (\<lambda>d r. bind_node rt d = Inr r) ns N \<and>
           list_all2 (\<lambda>d r. bind_edge rt d = Inr r) es E \<and>
           n = length ns \<and> m = length es \<and>
           f_committed c' = \<lparr>nodes = N, edges = E\<rparr> \<and> f_working c' = \<lparr>nodes = N, edges = E\<rparr> \<and>
           f_log c' = f_log conn @ [Delete_edges, Delete_nodes] @ map Insert_node N @
                        map Insert_edge E @ [Commit]"
proof -
  define c where "c = delete_nodes (delete_edges conn)"
  have c: "nodes (f_working c) = []" "edges (f_working c) = []"
    "f_log c = f_log conn @ [Delete_edges, Delete_nodes]"
    by (simp_all add: c_def delete_nodes_def delete_edges_def)
  from assms obtain k convs ns es c1 c2 where
    "py_len data = Inr k" and it: "py_iter data = Inr convs"
    and b: "build_rows env convs [] [] = Inr (ns, es)"
    and n1: "executemany_nodes rt c ns = Inr c1"
    and e1: "executemany_edges rt c1 es = Inr c2"
    and res: "n = length ns" "m = length es" "c' = f_commit c2"
    by (auto simp: import_conversations_def Let_def c_def [symmetric]
        split: sum.splits prod.splits)
  from executemany_nodes_Inr [OF n1] obtain N where N:
    "list_all2 (\<lambda>d r. bind_node rt d = Inr r) ns N"
    "nodes (f_working c1) = nodes (f_working c) @ N"
    "edges (f_working c1) = edges (f_working c)"
    "f_log c1 = f_log c @ map Insert_node N"
    by blast
  from executemany_edges_Inr [OF e1] obtain E where E:
    "list_all2 (\<lambda>d r. bind_edge rt d = Inr r) es E"
    "edges (f_working c2) = edges (f_working c1) @ E"
    "nodes (f_working c2) = nodes (f_working c1)"
    "f_log c2 = f_log c1 @ map Insert_edge E"
    by blast
  have w: "f_working c2 = \<lparr>nodes = N, edges = E\<rparr>"
    using N E c by (cases "f_working c2") simp
  show ?thesis
    using it b N(1) E(1) res w N(4) E(4) c(3)
    by (intro exI [of _ convs] exI [of _ ns] exI [of _ es] exI [of _ N] exI [of _ E])
       (simp add: f_commit_def)
qed

subsection \<open>From the dicts to the rows of the tables\<close>

lemma bind_node_Inr:
  assumes "bind_node rt d = Inr r"
  shows "n_type r = n_type d" "n_child_count r = n_child_count d"
  using assms by (auto simp: bind_node_def split: sum.splits)

lemma bind_edge_Inr:
  assumes "bind_edge rt d = Inr r"
  shows "e_type r = e_type d" "e_id r = e_id d"
  using assms by (auto simp: bind_edge_def split: sum.splits)

text \<open>Equal identifiers are stored as equal identifiers.\<close>

lemma bind_node_parent:
  assumes "bind_node rt d = Inr r" and "bind_node rt d' = Inr r'"
    and "n_parent_id d = n_id d'"
  shows "n_parent_id r = n_id r'"
  using assms by (auto simp: bind_node_def split: sum.splits)

lemma bind_edge_source:
  assumes "bind_edge rt e = Inr r" and "bind_node rt d = Inr rd"
    and "n_id d = e_source_id e"
  shows "n_id rd = e_source_id r"
  using assms by (auto simp: bind_node_def bind_edge_def split: sum.splits)

lemma bind_edge_target:
  assumes "bind_edge rt e = Inr r" and "bind_node rt d = Inr rd"
    and "n_id d = e_target_id e"
  shows "n_id rd = e_target_id r"
  using assms by (auto simp: bind_node_def bind_edge_def split: sum.splits)

lemma list_all2_concat_split:
  "list_all2 P (concat bs) rows \<Longrightarrow>
   \<exists>rbs. rows = concat rbs \<and> list_all2 (list_all2 P) bs rbs"
proof (induction bs arbitrary: rows)
  case Nil
  then show ?case by (intro exI [of _ "[]"]) simp
next
  case (Cons b bs)
  then obtain us vs where rows: "rows = us @ vs" and us: "list_all2 P b us"
    and vs: "list_all2 P (concat bs) vs"
    by (auto simp: list_all2_append1)
  from Cons.IH [OF vs] obtain rbs where "vs = concat rbs" "list_all2 (list_all2 P) bs rbs"
    by blast
  with rows us show ?case
    by (intro exI [of _ "us # rbs"]) simp
qed

lemma list_all2_set1:
  assumes "list_all2 P xs ys" and "y \<in> set ys"
  shows "\<exists>x\<in>set xs. P x y"
proof -
  from assms(2) obtain i where i: "i < length ys" "ys ! i = y"
    by (auto simp: in_set_conv_nth)
  with assms(1) have "P (xs ! i) y" "i < length xs"
    by (auto simp: list_all2_conv_all_nth)
  then show ?thesis using nth_mem by blast
qed

lemma list_all2_set2:
  assumes "list_all2 P xs ys" and "x \<in> set xs"
  shows "\<exists>y\<in>set ys. P x y"
proof -
  from assms(2) obtain i where i: "i < length xs" "xs ! i = x"
    by (auto simp: in_set_conv_nth)
  with assms(1) have "P x (ys ! i)" "i < length ys"
    by (auto simp: list_all2_conv_all_nth)
  then show ?thesis using nth_mem by blast
qed

lemma conv_block_bound:
  assumes b: "conv_block c0 jb" and l: "list_all2 (\<lambda>d r. bind_node rt d = Inr r) jb rb"
  shows "conv_block c0 rb"
proof -
  from b obtain cn ms where jb: "jb = cn # ms" and cn: "n_type cn = lit ''context''"
    "n_child_count cn = human_messages c0" and len: "length ms = human_messages c0"
    and ms: "\<forall>x\<in>set ms. n_type x = lit ''thought'' \<and> n_parent_id x = n_id cn"
    unfolding conv_block_def by blast
  from l jb obtain rcn rms where rb: "rb = rcn # rms" and rcn: "bind_node rt cn = Inr rcn"
    and rms: "list_all2 (\<lambda>d r. bind_node rt d = Inr r) ms rms"
    by (auto simp: list_all2_Cons1)
  have "\<forall>y\<in>set rms. n_type y = lit ''thought'' \<and> n_parent_id y = n_id rcn"
  proof
    fix y assume y: "y \<in> set rms"
    from list_all2_set1 [OF rms y] obtain x where x: "x \<in> set ms" "bind_node rt x = Inr y"
      by blast
    with ms have "n_type x = lit ''thought''" "n_parent_id x = n_id cn" by auto
    with bind_node_Inr [OF x(2)] bind_node_parent [OF x(2) rcn]
    show "n_type y = lit ''thought'' \<and> n_parent_id y = n_id rcn" by simp
  qed
  moreover have "length rms = length ms"
    using rms by (simp add: list_all2_lengthD)
  ultimately show ?thesis
    unfolding conv_block_def using rb cn len bind_node_Inr [OF rcn]
    by (intro exI [of _ rcn] exI [of _ rms]) simp
qed

lemma contains_edge_bound:
  assumes c: "contains_edge ns e" and l: "list_all2 (\<lambda>d r. bind_node rt d = Inr r) ns N"
    and r: "bind_edge rt e = Inr r"
  shows "contains_edge N r"
proof -
  from c obtain cn mn where cn: "cn \<in> set ns" "n_type cn = lit ''context''"
    "n_id cn = e_source_id e" and mn: "mn \<in> set ns" "n_type mn = lit ''thought''"
    "n_id mn = e_target_id e" and t: "e_type e = lit ''contains''"
    unfolding contains_edge_def by blast
  from list_all2_set2 [OF l cn(1)] obtain rcn where rcn: "rcn \<in> set N" "bind_node rt cn = Inr rcn"
    by blast
  from list_all2_set2 [OF l mn(1)] obtain rmn where rmn: "rmn \<in> set N" "bind_node rt mn = Inr rmn"
    by blast
  have "n_type rcn = lit ''context'' \<and> n_id rcn = e_source_id r"
    using bind_node_Inr [OF rcn(2)] bind_edge_source [OF r rcn(2)] cn by simp
  moreover have "n_type rmn = lit ''thought'' \<and> n_id rmn = e_target_id r"
    using bind_node_Inr [OF rmn(2)] bind_edge_target [OF r rmn(2)] mn by simp
  moreover have "e_type r = lit ''contains''"
    using bind_edge_Inr [OF r] t by simp
  ultimately show ?thesis
    unfolding contains_edge_def using rcn(1) rmn(1) by blast
qed

subsection \<open>The claims\<close>

text \<open>
  C7. When \<open>import_conversations\<close> returns, the rows of \<open>nodes\<close> are, conversation by
  conversation and in order, the node of the conversation followed by the nodes of its
  messages: the \<open>child_count\<close> of the conversation node is the number of the
  conversation's messages whose sender is exactly \<open>human\<close>, and that is the number of
  message nodes that follow it, each of type \<open>thought\<close> with the conversation as parent.
\<close>

theorem child_count_is_human_count:
  assumes "import_conversations env rt conn data = (Inr (n, m), c')"
  shows "\<exists>convs blocks. py_iter data = Inr convs \<and>
           nodes (f_committed c') = concat blocks \<and> list_all2 conv_block convs blocks"
proof -
  from import_conversations_Inr [OF assms] obtain convs ns es N E where
    it: "py_iter data = Inr convs" and b: "build_rows env convs [] [] = Inr (ns, es)"
    and N: "list_all2 (\<lambda>d r. bind_node rt d = Inr r) ns N"
    and c: "f_committed c' = \<lparr>nodes = N, edges = E\<rparr>"
    by blast
  from build_rows_Inr [OF b] obtain jblocks where
    ns: "ns = concat jblocks" and jb: "list_all2 conv_block convs jblocks"
    by auto
  from list_all2_concat_split [OF N [unfolded ns]] obtain blocks where
    blocks: "N = concat blocks"
    "list_all2 (list_all2 (\<lambda>d r. bind_node rt d = Inr r)) jblocks blocks"
    by blast
  have "list_all2 conv_block convs blocks"
  proof (rule list_all2_all_nthI)
    show "length convs = length blocks"
      using jb blocks(2) by (simp add: list_all2_lengthD)
  next
    fix i assume "i < length convs"
    with jb blocks(2) have "conv_block (convs ! i) (jblocks ! i)"
      "list_all2 (\<lambda>d r. bind_node rt d = Inr r) (jblocks ! i) (blocks ! i)"
      by (simp_all add: list_all2_conv_all_nth)
    then show "conv_block (convs ! i) (blocks ! i)" by (rule conv_block_bound)
  qed
  with it blocks(1) c show ?thesis
    by (intro exI [of _ convs] exI [of _ blocks]) simp
qed

text \<open>
  C8. When \<open>import_conversations\<close> returns, the statements it executed are the two
  DELETEs, then the INSERTs into \<open>nodes\<close>, then the INSERTs into \<open>edges\<close>, then the
  commit; the tables hold the rows of these INSERTs; and every edge row has type
  \<open>contains\<close>, its \<open>source_id\<close> is the identifier of an inserted node of type
  \<open>context\<close> and its \<open>target_id\<close> the identifier of an inserted node of type \<open>thought\<close>.
\<close>

theorem edges_link_inserted_nodes:
  assumes "import_conversations env rt conn data = (Inr (n, m), c')"
  shows "\<exists>N E. f_log c' = f_log conn @ [Delete_edges, Delete_nodes] @ map Insert_node N @
                   map Insert_edge E @ [Commit] \<and>
           nodes (f_committed c') = N \<and> edges (f_committed c') = E \<and>
           (\<forall>e\<in>set E. contains_edge N e)"
proof -
  from import_conversations_Inr [OF assms] obtain convs ns es N E where
    b: "build_rows env convs [] [] = Inr (ns, es)"
    and N: "list_all2 (\<lambda>d r. bind_node rt d = Inr r) ns N"
    and E: "list_all2 (\<lambda>d r. bind_edge rt d = Inr r) es E"
    and c: "f_committed c' = \<lparr>nodes = N, edges = E\<rparr>"
    and lg: "f_log c' = f_log conn @ [Delete_edges, Delete_nodes] @ map Insert_node N @
                        map Insert_edge E @ [Commit]"
    by blast
  from build_rows_Inr [OF b] obtain jblocks where
    ns: "ns = concat jblocks" and ce: "\<forall>e\<in>set es. contains_edge (concat jblocks) e"
    by auto
  have "\<forall>r\<in>set E. contains_edge N r"
  proof
    fix r assume r: "r \<in> set E"
    from list_all2_set1 [OF E r] obtain e where e: "e \<in> set es" "bind_edge rt e = Inr r"
      by blast
    with ce ns have "contains_edge ns e" by simp
    then show "contains_edge N r" using N e(2) by (rule contains_edge_bound)
  qed
  with lg c show ?thesis
    by (intro exI [of _ N] exI [of _ E]) simp
qed

subsection \<open>Two runtimes build rows of the same shape\<close>

lemma message_rows_sim:
  assumes "message_rows env1 conv_id ms ns1 es1 = Inr (N1, E1)"
    and "list_all2 node_sim ns1 ns2" and "list_all2 edge_sim es1 es2"
  shows "\<exists>N2 E2. message_rows env2 conv_id ms ns2 es2 = Inr (N2, E2) \<and>
           list_all2 node_sim N1 N2 \<and> list_all2 edge_sim E1 E2"
  using assms
proof (induction ms arbitrary: ns1 es1 ns2 es2)
  case Nil
  then show ?case by simp
next
  case (Cons m rest)
  from Cons.prems(1) obtain msg where m: "m = JObj msg"
    by (cases m) simp_all
  show ?case
  proof (cases "dict_get msg (lit ''sender'') JNull = JStr (lit ''human'')")
    case False
    with Cons.prems(1) m have "message_rows env1 conv_id rest ns1 es1 = Inr (N1, E1)" by simp
    from Cons.IH [OF this Cons.prems(2,3)] show ?thesis
      using False m by simp
  next
    case True
    with Cons.prems(1) m obtain msg_id t where id: "map_of msg (lit ''uuid'') = Some msg_id"
      and t: "message_title msg = Inr t"
      by (auto split: option.splits sum.splits)
    define nd :: "py_env \<Rightarrow> json node" where
      "nd = (\<lambda>env. \<lparr>n_id = msg_id, n_type = lit ''thought'', n_title = t,
                                 n_content = dict_get msg (lit ''text'') JNull,
                                 n_created_at =
                                   parse_timestamp env (dict_get msg (lit ''created_at'') (JStr [])),
                                 n_updated_at =
                                   parse_timestamp env (dict_get msg (lit ''updated_at'') (JStr [])),
                                 n_level = 4, n_parent_id = conv_id, n_child_count = 0\<rparr>)"
    define ed :: "py_env \<Rightarrow> nat \<Rightarrow> json edge" where
      "ed = (\<lambda>env k. \<lparr>e_id = uuid4 env k, e_source_id = conv_id,
                                 e_target_id = msg_id, e_type = lit ''contains'',
                                 e_created_at =
                                   parse_timestamp env
                                     (dict_get msg (lit ''created_at'') (JStr []))\<rparr>)"
    have step: "message_rows env conv_id (m # rest) ns es
        = message_rows env conv_id rest (ns @ [nd env]) (es @ [ed env (length es)])" for env ns es
      using m True id t by (simp add: nd_def ed_def)
    from Cons.prems(1) have r1: "message_rows env1 conv_id rest (ns1 @ [nd env1])
        (es1 @ [ed env1 (length es1)]) = Inr (N1, E1)"
      by (simp only: step)
    have "node_sim (nd env1) (nd env2)"
      by (simp add: node_sim_def nd_def)
    with Cons.prems(2) have n: "list_all2 node_sim (ns1 @ [nd env1]) (ns2 @ [nd env2])"
      by (intro list_all2_appendI) simp_all
    have "edge_sim (ed env1 (length es1)) (ed env2 (length es2))"
      by (simp add: edge_sim_def ed_def)
    with Cons.prems(3)
    have e: "list_all2 edge_sim (es1 @ [ed env1 (length es1)]) (es2 @ [ed env2 (length es2)])"
      by (intro list_all2_appendI) simp_all
    from Cons.IH [OF r1 n e] show ?thesis
      by (simp only: step)
  qed
qed

lemma conv_rows_sim:
  assumes "conv_rows env1 c0 ns1 es1 = Inr (N1, E1)"
    and "list_all2 node_sim ns1 ns2" and "list_all2 edge_sim es1 es2"
  shows "\<exists>N2 E2. conv_rows env2 c0 ns2 es2 = Inr (N2, E2) \<and>
           list_all2 node_sim N1 N2 \<and> list_all2 edge_sim E1 E2"
proof -
  from assms(1) obtain conv where c0: "c0 = JObj conv"
    by (cases c0) (simp_all add: conv_rows_def)
  from assms(1) c0 obtain conv_id messages child_count where
    id: "map_of conv (lit ''uuid'') = Some conv_id"
    and it: "py_iter (dict_get conv (lit ''chat_messages'') (JArr [])) = Inr messages"
    and ch: "count_human messages = Inr child_count"
    by (auto simp: conv_rows_def split: option.splits sum.splits)
  define cn :: "py_env \<Rightarrow> json node" where
    "cn = (\<lambda>env. \<lparr>n_id = conv_id, n_type = lit ''context'',
                                    n_title = py_or (dict_get conv (lit ''name'') JNull)
                                                (JStr (lit ''Untitled'')),
                                    n_content = dict_get conv (lit ''summary'') JNull,
                                    n_created_at =
                                      parse_timestamp env
                                        (dict_get conv (lit ''created_at'') (JStr [])),
                                    n_updated_at =
                                      parse_timestamp env
                                        (dict_get conv (lit ''updated_at'') (JStr [])),
                                    n_level = 3, n_parent_id = JNull,
                                    n_child_count = child_count\<rparr>)"
  have step: "conv_rows env c0 ns es = message_rows env conv_id messages (ns @ [cn env]) es"
    for env ns es
    using c0 id it ch by (simp add: conv_rows_def cn_def)
  from assms(1) have r1: "message_rows env1 conv_id messages (ns1 @ [cn env1]) es1 = Inr (N1, E1)"
    by (simp only: step)
  have "node_sim (cn env1) (cn env2)"
    by (simp add: node_sim_def cn_def)
  with assms(2) have n: "list_all2 node_sim (ns1 @ [cn env1]) (ns2 @ [cn env2])"
    by (intro list_all2_appendI) simp_all
  from message_rows_sim [OF r1 n assms(3)] show ?thesis
    by (simp only: step)
qed

lemma build_rows_sim:
  assumes "build_rows env1 convs ns1 es1 = Inr (N1, E1)"
    and "list_all2 node_sim ns1 ns2" and "list_all2 edge_sim es1 es2"
  shows "\<exists>N2 E2. build_rows env2 convs ns2 es2 = Inr (N2, E2) \<and>
           list_all2 node_sim N1 N2 \<and> list_all2 edge_sim E1 E2"
  using assms
proof (induction convs arbitrary: ns1 es1 ns2 es2)
  case Nil
  then show ?case by simp
next
  case (Cons c0 rest)
  from Cons.prems(1) obtain Na Ea where c: "conv_rows env1 c0 ns1 es1 = Inr (Na, Ea)"
    and r: "build_rows env1 rest Na Ea = Inr (N1, E1)"
    by (auto split: sum.splits)
  from conv_rows_sim [OF c Cons.prems(2,3)] obtain Nb Eb where
    c2: "conv_rows env2 c0 ns2 es2 = Inr (Nb, Eb)"
    and s: "list_all2 node_sim Na Nb" "list_all2 edge_sim Ea Eb"
    by blast
  from Cons.IH [OF r s] c2 show ?case by simp
qed


subsection \<open>Whether the inserts go through does not depend on the runtime\<close>

lemma bind_node_sim:
  assumes "node_sim d d'" and "bind_node rt d = Inr r"
  shows "\<exists>r'. bind_node rt d' = Inr r' \<and> n_id r' = n_id r \<and> n_title r' = n_title r"
  using assms by (auto simp: node_sim_def bind_node_def split: sum.splits)

lemma bind_edge_sim:
  assumes "edge_sim e e'" and "bind_edge rt e = Inr r"
  shows "\<exists>r'. bind_edge rt e' = Inr r' \<and> e_source_id r' = e_source_id r \<and>
           e_target_id r' = e_target_id r \<and> e_id r' = e_id e'"
  using assms by (auto simp: edge_sim_def bind_edge_def split: sum.splits)

lemma executemany_nodes_sim:
  assumes "executemany_nodes rt c ds = Inr c1" and "list_all2 node_sim ds ds'"
    and "n_id ` set (nodes (f_working c')) = n_id ` set (nodes (f_working c))"
  shows "\<exists>c1'. executemany_nodes rt c' ds' = Inr c1'"
  using assms
proof (induction ds arbitrary: c c' ds')
  case Nil
  then show ?case by simp
next
  case (Cons d ds)
  from Cons.prems(2) obtain d' rest' where ds': "ds' = d' # rest'" and s: "node_sim d d'"
    and rs: "list_all2 node_sim ds rest'"
    by (auto simp: list_all2_Cons1)
  from Cons.prems(1) obtain cm where i: "insert_node rt c d = Inr cm"
    and r: "executemany_nodes rt cm ds = Inr c1"
    by (auto split: sum.splits)
  from i obtain rw where rw: "bind_node rt d = Inr rw" "n_title rw \<noteq> SNull"
    "\<not> (n_id rw \<noteq> SNull \<and> n_id rw \<in> n_id ` set (nodes (f_working c)))"
    "nodes (f_working cm) = nodes (f_working c) @ [rw]"
    by (auto simp: insert_node_def split: sum.splits if_splits)
  from bind_node_sim [OF s rw(1)] obtain rw' where rw': "bind_node rt d' = Inr rw'"
    "n_id rw' = n_id rw" "n_title rw' = n_title rw"
    by blast
  define cm' where "cm' = c'\<lparr>f_working := (f_working c')\<lparr>nodes := nodes (f_working c') @ [rw']\<rparr>,
                     f_log := f_log c' @ [Insert_node rw']\<rparr>"
  have i': "insert_node rt c' d' = Inr cm'"
    using rw rw' Cons.prems(3) by (simp add: insert_node_def cm'_def)
  have "n_id ` set (nodes (f_working cm')) = n_id ` set (nodes (f_working cm))"
    using rw(4) rw'(2) Cons.prems(3) by (simp add: cm'_def)
  from Cons.IH [OF r rs this] i' ds' show ?case by simp
qed

lemma executemany_nodes_edges:
  "executemany_nodes rt c ds = Inr c' \<Longrightarrow> edges (f_working c') = edges (f_working c)"
proof (induction ds arbitrary: c)
  case Nil
  then show ?case by simp
next
  case (Cons d ds)
  then obtain cm where i: "insert_node rt c d = Inr cm" and r: "executemany_nodes rt cm ds = Inr c'"
    by (auto split: sum.splits)
  from i have "edges (f_working cm) = edges (f_working c)"
    by (auto simp: insert_node_def split: sum.splits if_splits)
  with Cons.IH [OF r] show ?case by simp
qed

lemma executemany_edges_ok:
  assumes "executemany_edges rt c es = Inr c'" and "e \<in> set es"
  shows "\<exists>r. bind_edge rt e = Inr r \<and> e_source_id r \<noteq> SNull \<and> e_target_id r \<noteq> SNull"
  using assms
proof (induction es arbitrary: c)
  case Nil
  then show ?case by simp
next
  case (Cons d ds)
  from Cons.prems(1) obtain cm where i: "insert_edge rt c d = Inr cm"
    and r: "executemany_edges rt cm ds = Inr c'"
    by (auto split: sum.splits)
  show ?case
  proof (cases "e = d")
    case True
    with i show ?thesis
      by (auto simp: insert_edge_def split: sum.splits if_splits)
  next
    case False
    with Cons.prems(2) have "e \<in> set ds" by simp
    from Cons.IH [OF r this] show ?thesis .
  qed
qed

lemma executemany_edges_fresh:
  assumes "\<forall>e\<in>set es. \<exists>r. bind_edge rt e = Inr r \<and> e_source_id r \<noteq> SNull \<and>
             e_target_id r \<noteq> SNull"
    and "distinct (map e_id es)"
    and "e_id ` set (edges (f_working c)) \<inter> e_id ` set es = {}"
  shows "\<exists>c'. executemany_edges rt c es = Inr c'"
  using assms
proof (induction es arbitrary: c)
  case Nil
  then show ?case by simp
next
  case (Cons d ds)
  from Cons.prems(1) obtain r where r: "bind_edge rt d = Inr r" "e_source_id r \<noteq> SNull"
    "e_target_id r \<noteq> SNull"
    by auto
  then have id: "e_id r = e_id d"
    by (auto simp: bind_edge_def split: sum.splits)
  define cm where "cm = c\<lparr>f_working := (f_working c)\<lparr>edges := edges (f_working c) @ [r]\<rparr>,
                     f_log := f_log c @ [Insert_edge r]\<rparr>"
  have "e_id d \<notin> e_id ` set (edges (f_working c))"
    using Cons.prems(3) by auto
  with r id have i: "insert_edge rt c d = Inr cm"
    by (simp add: insert_edge_def cm_def)
  have a: "\<forall>e\<in>set ds. \<exists>r. bind_edge rt e = Inr r \<and> e_source_id r \<noteq> SNull \<and>
             e_target_id r \<noteq> SNull"
    using Cons.prems(1) by simp
  have b: "distinct (map e_id ds)" using Cons.prems(2) by simp
  have c: "e_id ` set (edges (f_working cm)) \<inter> e_id ` set ds = {}"
    using Cons.prems(2,3) id by (auto simp: cm_def)
  from Cons.IH [OF a b c] i show ?case by simp
qed


lemma executemany_nodes_Inl:
  "executemany_nodes rt c ds = Inl (e, c') \<Longrightarrow>
   f_committed c' = f_committed c \<and> (\<exists>rest. f_log c' = f_log c @ rest)"
proof (induction ds arbitrary: c)
  case Nil
  then show ?case by simp
next
  case (Cons d ds)
  show ?case
  proof (cases "insert_node rt c d")
    case (Inl x)
    with Cons.prems show ?thesis by simp
  next
    case (Inr cm)
    with Cons.prems have "executemany_nodes rt cm ds = Inl (e, c')" by simp
    from Cons.IH [OF this] insert_node_Inr [OF Inr] show ?thesis by auto
  qed
qed

lemma executemany_edges_Inl:
  "executemany_edges rt c ds = Inl (e, c') \<Longrightarrow>
   f_committed c' = f_committed c \<and> (\<exists>rest. f_log c' = f_log c @ rest)"
proof (induction ds arbitrary: c)
  case Nil
  then show ?case by simp
next
  case (Cons d ds)
  show ?case
  proof (cases "insert_edge rt c d")
    case (Inl x)
    with Cons.prems show ?thesis by simp
  next
    case (Inr cm)
    with Cons.prems have "executemany_edges rt cm ds = Inl (e, c')" by simp
    from Cons.IH [OF this] insert_edge_Inr [OF Inr] show ?thesis by auto
  qed
qed

text \<open>A call that raises has committed nothing; and every call starts with the DELETEs.\<close>

lemma import_conversations_Inl:
  assumes "import_conversations env rt conn data = (Inl e, c')"
  shows "f_committed c' = f_committed conn"
proof -
  define c where "c = delete_nodes (delete_edges conn)"
  have c: "f_committed c = f_committed conn"
    by (simp add: c_def delete_nodes_def delete_edges_def)
  from assms consider "c' = c"
    | ns where "executemany_nodes rt c ns = Inl (e, c')"
    | ns es c1 where "executemany_nodes rt c ns = Inr c1" "executemany_edges rt c1 es = Inl (e, c')"
    by (auto simp: import_conversations_def Let_def c_def [symmetric]
        split: sum.splits prod.splits)
  then show ?thesis
  proof cases
    case 1
    with c show ?thesis by simp
  next
    case 2
    with executemany_nodes_Inl c show ?thesis by fastforce
  next
    case 3
    from executemany_nodes_Inr [OF 3(1)] executemany_edges_Inl [OF 3(2)] c
    show ?thesis by auto
  qed
qed

lemma import_conversations_log:
  "\<exists>rest. f_log (snd (import_conversations env rt conn data))
      = f_log conn @ Delete_edges # Delete_nodes # rest"
proof -
  define c where "c = delete_nodes (delete_edges conn)"
  have c: "f_log c = f_log conn @ [Delete_edges, Delete_nodes]"
    by (simp add: c_def delete_nodes_def delete_edges_def)
  obtain r c' where rc: "import_conversations env rt conn data = (r, c')"
    by (cases "import_conversations env rt conn data")
  have "\<exists>rest. f_log c' = f_log c @ rest"
  proof -
    from rc consider "c' = c"
      | e ns where "executemany_nodes rt c ns = Inl (e, c')"
      | e ns es c1 where "executemany_nodes rt c ns = Inr c1" "executemany_edges rt c1 es = Inl (e, c')"
      | ns es c1 c2 where "executemany_nodes rt c ns = Inr c1" "executemany_edges rt c1 es = Inr c2"
          "c' = f_commit c2"
      by (auto simp: import_conversations_def Let_def c_def [symmetric]
          split: sum.splits prod.splits)
    then show ?thesis
    proof cases
      case 1
      then show ?thesis by simp
    next
      case 2
      with executemany_nodes_Inl show ?thesis by blast
    next
      case 3
      from executemany_nodes_Inr [OF 3(1)] executemany_edges_Inl [OF 3(2)]
      show ?thesis by auto
    next
      case 4
      from executemany_nodes_Inr [OF 4(1)] executemany_edges_Inr [OF 4(2)] 4(3)
      show ?thesis by (auto simp: f_commit_def)
    qed
  qed
  with c rc show ?thesis by auto
qed

text \<open>
  Whether a call returns depends on the input only, for a runtime whose fresh
  identifiers do not repeat.
\<close>

lemma import_conversations_returns:
  assumes r1: "import_conversations env1 rt conn data = (Inr (n, m), c1)"
    and u2: "inj (uuid4 env2)"
  shows "\<exists>c2. import_conversations env2 rt conn' data = (Inr (n, m), c2)"
proof -
  define c where "c = delete_nodes (delete_edges conn)"
  define c' where "c' = delete_nodes (delete_edges conn')"
  have c: "nodes (f_working c) = []" "nodes (f_working c') = []" "edges (f_working c') = []"
    by (simp_all add: c_def c'_def delete_nodes_def delete_edges_def)
  from r1 obtain k convs ns es cA cB where
    len: "py_len data = Inr k" and it: "py_iter data = Inr convs"
    and b: "build_rows env1 convs [] [] = Inr (ns, es)"
    and n1: "executemany_nodes rt c ns = Inr cA"
    and e1: "executemany_edges rt cA es = Inr cB"
    and res: "n = length ns" "m = length es"
    by (auto simp: import_conversations_def Let_def c_def [symmetric]
        split: sum.splits prod.splits)
  from build_rows_sim [OF b, of "[]" "[]" env2] obtain ns2 es2 where
    b2: "build_rows env2 convs [] [] = Inr (ns2, es2)"
    and sn: "list_all2 node_sim ns ns2" and se: "list_all2 edge_sim es es2"
    by auto
  from executemany_nodes_sim [OF n1 sn, of c'] c obtain cA' where
    n2: "executemany_nodes rt c' ns2 = Inr cA'"
    by auto
  have eA: "edges (f_working cA') = []"
    using executemany_nodes_edges [OF n2] c by simp
  from build_rows_Inr [OF b2] have ids: "map e_id es2 = map (uuid4 env2) [0..<length es2]"
    by auto
  have d: "distinct (map e_id es2)"
    unfolding ids using u2 by (simp add: distinct_map inj_on_def inj_def)
  have ok: "\<forall>e\<in>set es2. \<exists>r. bind_edge rt e = Inr r \<and> e_source_id r \<noteq> SNull \<and>
             e_target_id r \<noteq> SNull"
  proof
    fix e' assume e': "e' \<in> set es2"
    from list_all2_set1 [OF se e'] obtain e where e: "e \<in> set es" "edge_sim e e'"
      by blast
    from executemany_edges_ok [OF e1 e(1)] obtain r where r: "bind_edge rt e = Inr r"
      "e_source_id r \<noteq> SNull" "e_target_id r \<noteq> SNull"
      by blast
    from bind_edge_sim [OF e(2) r(1)] r(2,3)
    show "\<exists>r. bind_edge rt e' = Inr r \<and> e_source_id r \<noteq> SNull \<and> e_target_id r \<noteq> SNull"
      by auto
  qed
  from executemany_edges_fresh [OF ok d, of cA'] eA obtain cB' where
    e2: "executemany_edges rt cA' es2 = Inr cB'"
    by auto
  have "length ns2 = length ns" "length es2 = length es"
    using sn se by (simp_all add: list_all2_lengthD)
  with len it b2 n2 e2 res show ?thesis
    by (simp add: import_conversations_def Let_def c'_def [symmetric])
qed

lemma undigits_digits: "foldl (\<lambda>a d. 10 * a + (d - 48)) 0 (digits n) = n"
proof (induction n rule: digits.induct)
  case (1 n)
  show ?case
  proof (cases "n < 10")
    case True
    then show ?thesis by (subst digits.simps) simp
  next
    case False
    with 1 show ?thesis by (subst digits.simps) simp
  qed
qed

lemma inj_digits: "inj digits"
  by (rule inj_on_inverseI [where g = "foldl (\<lambda>a d. 10 * a + (d - 48)) 0"])
     (rule undigits_digits)


lemma import_conversations_counts:
  assumes "import_conversations env rt c data = (Inr (n, m), c')"
  shows "length (nodes (f_committed c')) = n \<and> length (edges (f_committed c')) = m"
proof -
  from import_conversations_Inr [OF assms] obtain ns es N E where
    N: "list_all2 (\<lambda>d r. bind_node rt d = Inr r) ns N"
    and E: "list_all2 (\<lambda>d r. bind_edge rt d = Inr r) es E"
    and nm: "n = length ns" "m = length es"
    and c: "f_committed c' = \<lparr>nodes = N, edges = E\<rparr>"
    by blast
  have "length N = length ns" "length E = length es"
    using N E by (simp_all add: list_all2_lengthD)
  with nm c show ?thesis by simp
qed

text \<open>
  C6. Every call of \<open>import_conversations\<close> starts with the two DELETEs, so what it
  leaves does not depend on what the tables held. Take two calls on the same input, the
  second on a connection to the database the first one left, under runtimes whose fresh
  identifiers do not repeat. Then the numbers of rows of \<open>nodes\<close> and of \<open>edges\<close> after
  the second call are those after the first; and when the first call returns, the
  second returns the same two numbers, which are the numbers of rows in the tables.
\<close>

theorem import_twice_same_counts:
  assumes u1: "inj (uuid4 env1)" and u2: "inj (uuid4 env2)"
    and r1: "import_conversations env1 rt conn data = (res1, c1)"
    and cm: "f_committed c1' = f_committed c1"
    and r2: "import_conversations env2 rt c1' data = (res2, c2)"
  shows "length (nodes (f_committed c2)) = length (nodes (f_committed c1)) \<and>
         length (edges (f_committed c2)) = length (edges (f_committed c1)) \<and>
         (\<exists>rest. f_log c2 = f_log c1' @ Delete_edges # Delete_nodes # rest) \<and>
         (\<forall>n m. res1 = Inr (n, m) \<longrightarrow>
            res2 = Inr (n, m) \<and> length (nodes (f_committed c2)) = n \<and>
            length (edges (f_committed c2)) = m)"
proof -
  have lg: "\<exists>rest. f_log c2 = f_log c1' @ Delete_edges # Delete_nodes # rest"
    using import_conversations_log [of env2 rt c1' data] r2 by simp
  show ?thesis
  proof (cases res1)
    case (Inr nm)
    obtain n m where nm: "nm = (n, m)" by (cases nm)
    from r1 Inr nm have a: "import_conversations env1 rt conn data = (Inr (n, m), c1)" by simp
    from import_conversations_returns [OF a u2, of c1'] r2
    have b: "import_conversations env2 rt c1' data = (Inr (n, m), c2)" "res2 = Inr (n, m)"
      by auto
    from import_conversations_counts [OF a] import_conversations_counts [OF b(1)] b(2) Inr nm lg
    show ?thesis by simp
  next
    case (Inl e)
    with r1 have a: "import_conversations env1 rt conn data = (Inl e, c1)" by simp
    have "\<exists>e'. res2 = Inl e'"
    proof (cases res2)
      case (Inl e')
      then show ?thesis by blast
    next
      case (Inr nm)
      obtain n m where "nm = (n, m)" by (cases nm)
      with r2 Inr have "import_conversations env2 rt c1' data = (Inr (n, m), c2)" by simp
      from import_conversations_returns [OF this u1, of conn] a show ?thesis by simp
    qed
    then obtain e' where "import_conversations env2 rt c1' data = (Inl e', c2)"
      using r2 by auto
    from import_conversations_Inl [OF this] cm Inl lg show ?thesis by simp
  qed
qed

subsection \<open>The example import\<close>

lemma human_m1_fields:
  "dict_get human_m1 (lit ''sender'') d = JStr (lit ''human'')"
  "map_of human_m1 (lit ''uuid'') = Some (JStr (lit ''m1''))"
  "dict_get human_m1 (lit ''text'') d = JStr (lit ''Q'')"
  "dict_get human_m1 (lit ''created_at'') d = d"
  "dict_get human_m1 (lit ''updated_at'') d = d"
  by (simp_all add: human_m1_def dict_get_def lit_def)

lemma assistant_m2_sender:
  "dict_get assistant_m2 (lit ''sender'') d \<noteq> JStr (lit ''human'')"
  by (simp add: assistant_m2_def dict_get_def lit_def)

lemma conv_c1_fields:
  "map_of conv_c1 (lit ''uuid'') = Some (JStr (lit ''c1''))"
  "dict_get conv_c1 (lit ''chat_messages'') d = JArr [JObj human_m1, JObj assistant_m2]"
  "dict_get conv_c1 (lit ''name'') d = d"
  "dict_get conv_c1 (lit ''summary'') d = d"
  "dict_get conv_c1 (lit ''created_at'') d = d"
  "dict_get conv_c1 (lit ''updated_at'') d = d"
  by (simp_all add: conv_c1_def dict_get_def lit_def)

lemma human_m1_title: "message_title human_m1 = Inr (JStr (lit ''Q''))"
  by (simp add: message_title_def human_m1_fields) (simp add: lit_def py_or_def)

lemma uuid4_env0_0: "uuid4 env0 0 = lit ''0''"
  by (simp add: env0_def digits.simps lit_def)

lemma count_human_c1: "count_human [JObj human_m1, JObj assistant_m2] = Inr 1"
  by (simp add: human_m1_fields assistant_m2_sender)

lemma untitled: "py_or JNull (JStr (lit ''Untitled'')) = JStr (lit ''Untitled'')"
  by (simp add: py_or_def)

lemma build_flat_export:
  "build_rows env0 [JObj conv_c1] [] [] =
     Inr ([\<lparr>n_id = JStr (lit ''c1''), n_type = lit ''context'',
             n_title = JStr (lit ''Untitled''), n_content = JNull, n_created_at = 0,
             n_updated_at = 0, n_level = 3, n_parent_id = JNull, n_child_count = 1\<rparr>,
           \<lparr>n_id = JStr (lit ''m1''), n_type = lit ''thought'',
             n_title = JStr (lit ''Q''), n_content = JStr (lit ''Q''), n_created_at = 0,
             n_updated_at = 0, n_level = 4, n_parent_id = JStr (lit ''c1''),
             n_child_count = 0\<rparr>],
          [\<lparr>e_id = lit ''0'', e_source_id = JStr (lit ''c1''),
             e_target_id = JStr (lit ''m1''), e_type = lit ''contains'', e_created_at = 0\<rparr>])"
  by (simp add: conv_rows_def conv_c1_fields count_human_c1 human_m1_fields
      assistant_m2_sender human_m1_title parse_timestamp_env0 uuid4_env0_0 untitled)

lemma lit_distinct: "lit ''m1'' \<noteq> lit ''c1''"
  by (simp add: lit_def)

lemma import_flat_export:
  "import_conversations env0 rt0 c flat_export =
     (Inr (2, 1),
      \<lparr>f_committed = \<lparr>nodes = [row_c1, row_m1], edges = [row_e1]\<rparr>,
       f_working = \<lparr>nodes = [row_c1, row_m1], edges = [row_e1]\<rparr>,
       f_log = f_log c @ [Delete_edges, Delete_nodes, Insert_node row_c1, Insert_node row_m1,
                          Insert_edge row_e1, Commit]\<rparr>)"
proof -
  define c0 where "c0 = delete_nodes (delete_edges c)"
  have c0: "f_working c0 = \<lparr>nodes = [], edges = []\<rparr>"
    "f_log c0 = f_log c @ [Delete_edges, Delete_nodes]"
    by (simp_all add: c0_def delete_nodes_def delete_edges_def)
  define jn1 :: "json node" where "jn1 = \<lparr>n_id = JStr (lit ''c1''), n_type = lit ''context'',
             n_title = JStr (lit ''Untitled''), n_content = JNull, n_created_at = 0,
             n_updated_at = 0, n_level = 3, n_parent_id = JNull, n_child_count = 1\<rparr>"
  define jn2 :: "json node" where "jn2 = \<lparr>n_id = JStr (lit ''m1''), n_type = lit ''thought'',
             n_title = JStr (lit ''Q''), n_content = JStr (lit ''Q''), n_created_at = 0,
             n_updated_at = 0, n_level = 4, n_parent_id = JStr (lit ''c1''),
             n_child_count = 0\<rparr>"
  define je1 :: "json edge" where "je1 = \<lparr>e_id = lit ''0'', e_source_id = JStr (lit ''c1''),
             e_target_id = JStr (lit ''m1''), e_type = lit ''contains'', e_created_at = 0\<rparr>"
  note build = build_flat_export [folded jn1_def jn2_def je1_def]
  have b1: "bind_node rt0 jn1 = Inr row_c1"
    by (simp add: bind_node_def row_c1_def jn1_def)
  have b2: "bind_node rt0 jn2 = Inr row_m1"
    by (simp add: bind_node_def row_m1_def jn2_def)
  have b3: "bind_edge rt0 je1 = Inr row_e1"
    by (simp add: bind_edge_def row_e1_def je1_def)
  have r: "n_title row_c1 \<noteq> SNull" "n_title row_m1 \<noteq> SNull" "n_id row_m1 \<noteq> n_id row_c1"
    "e_source_id row_e1 \<noteq> SNull" "e_target_id row_e1 \<noteq> SNull"
    using lit_distinct by (simp_all add: row_c1_def row_m1_def row_e1_def)
  define c1 where "c1 = c0\<lparr>f_working := \<lparr>nodes = [row_c1], edges = []\<rparr>,
      f_log := f_log c0 @ [Insert_node row_c1]\<rparr>"
  define c2 where "c2 = c0\<lparr>f_working := \<lparr>nodes = [row_c1, row_m1], edges = []\<rparr>,
      f_log := f_log c0 @ [Insert_node row_c1, Insert_node row_m1]\<rparr>"
  define c3 where "c3 = c0\<lparr>f_working := \<lparr>nodes = [row_c1, row_m1], edges = [row_e1]\<rparr>,
      f_log := f_log c0 @ [Insert_node row_c1, Insert_node row_m1, Insert_edge row_e1]\<rparr>"
  have i1: "insert_node rt0 c0 jn1 = Inr c1"
    unfolding insert_node_def b1 using r c0 by (simp add: c1_def)
  have i2: "insert_node rt0 c1 jn2 = Inr c2"
    unfolding insert_node_def b2 using r c0 by (simp add: c1_def c2_def)
  have i3: "insert_edge rt0 c2 je1 = Inr c3"
    unfolding insert_edge_def b3 using r c0 by (simp add: c2_def c3_def)
  have en: "executemany_nodes rt0 c0 [jn1, jn2] = Inr c2"
    by (simp add: i1 i2)
  have ee: "executemany_edges rt0 c2 [je1] = Inr c3"
    by (simp add: i3)
  have fin: "f_commit c3 = \<lparr>f_committed = \<lparr>nodes = [row_c1, row_m1], edges = [row_e1]\<rparr>,
       f_working = \<lparr>nodes = [row_c1, row_m1], edges = [row_e1]\<rparr>,
       f_log = f_log c @ [Delete_edges, Delete_nodes, Insert_node row_c1, Insert_node row_m1,
                          Insert_edge row_e1, Commit]\<rparr>"
    using c0 by (simp add: f_commit_def c3_def)
  show ?thesis
    unfolding import_conversations_def Let_def c0_def [symmetric] flat_export_def
    by (simp add: build en ee fin del: build_rows.simps executemany_nodes.simps
        executemany_edges.simps)
qed


theorem import_twice_same_counts_witness:
  "inj (uuid4 env0) \<and>
   fst (import_conversations env0 rt0 (f_connect old_db) flat_export) = Inr (2, 1) \<and>
   fst (import_conversations env0 rt0
          (snd (import_conversations env0 rt0 (f_connect old_db) flat_export)) flat_export)
     = Inr (2, 1) \<and>
   length (nodes old_db) = 1 \<and>
   length (nodes (f_committed
     (snd (import_conversations env0 rt0 (f_connect old_db) flat_export)))) = 2 \<and>
   length (nodes (f_committed
     (snd (import_conversations env0 rt0
        (snd (import_conversations env0 rt0 (f_connect old_db) flat_export)) flat_export)))) = 2 \<and>
   length (edges (f_committed
     (snd (import_conversations env0 rt0
        (snd (import_conversations env0 rt0 (f_connect old_db) flat_export)) flat_export)))) = 1"
proof -
  have u: "inj (uuid4 env0)" by (simp add: env0_def inj_digits)
  obtain c1 where r1: "import_conversations env0 rt0 (f_connect old_db) flat_export = (Inr (2, 1), c1)"
    using import_flat_export [of "f_connect old_db"] by simp
  obtain res2 c2 where r2: "import_conversations env0 rt0 c1 flat_export = (res2, c2)"
    by (cases "import_conversations env0 rt0 c1 flat_export")
  from import_twice_same_counts [OF u u r1 refl r2]
  have "res2 = Inr (2, 1)" "length (nodes (f_committed c2)) = 2"
    "length (edges (f_committed c2)) = 1"
    "length (nodes (f_committed c1)) = 2"
    by simp_all
  then show ?thesis
    using u r1 r2 by (simp add: old_db_def)
qed

lemma py_iter_flat_export: "py_iter flat_export = Inr [JObj conv_c1]"
  by (simp add: flat_export_def)

theorem child_count_is_human_count_witness:
  "nodes (f_committed (snd (import_conversations env0 rt0 (f_connect old_db) flat_export)))
     = [row_c1, row_m1] \<and>
   conv_block (JObj conv_c1) [row_c1, row_m1] \<and>
   n_child_count row_c1 = 1"
proof -
  obtain c1 where r1: "import_conversations env0 rt0 (f_connect old_db) flat_export = (Inr (2, 1), c1)"
    and n: "nodes (f_committed c1) = [row_c1, row_m1]"
    using import_flat_export [of "f_connect old_db"] by simp
  from child_count_is_human_count [OF r1] obtain convs blocks where
    "py_iter flat_export = Inr convs" "nodes (f_committed c1) = concat blocks"
    "list_all2 conv_block convs blocks"
    by blast
  with n py_iter_flat_export have "conv_block (JObj conv_c1) [row_c1, row_m1]"
    by (auto simp: list_all2_Cons1)
  then show ?thesis
    using r1 n by (simp add: row_c1_def)
qed

theorem edges_link_inserted_nodes_witness:
  "f_log (snd (import_conversations env0 rt0 (f_connect old_db) flat_export))
     = [Delete_edges, Delete_nodes, Insert_node row_c1, Insert_node row_m1,
        Insert_edge row_e1, Commit] \<and>
   edges (f_committed (snd (import_conversations env0 rt0 (f_connect old_db) flat_export)))
     = [row_e1] \<and>
   contains_edge [row_c1, row_m1] row_e1"
proof -
  obtain c1 where r1: "import_conversations env0 rt0 (f_connect old_db) flat_export = (Inr (2, 1), c1)"
    and n: "nodes (f_committed c1) = [row_c1, row_m1]" "edges (f_committed c1) = [row_e1]"
    and l: "f_log c1 = [Delete_edges, Delete_nodes, Insert_node row_c1, Insert_node row_m1,
        Insert_edge row_e1, Commit]"
    using import_flat_export [of "f_connect old_db"] by (simp add: f_connect_def)
  from edges_link_inserted_nodes [OF r1] obtain N E where
    "nodes (f_committed c1) = N" "edges (f_committed c1) = E" "\<forall>e\<in>set E. contains_edge N e"
    by blast
  with n have "contains_edge [row_c1, row_m1] row_e1" by auto
  then show ?thesis
    using r1 n l by simp
qed

subsection \<open>Identifiers that are numbers\<close>

text \<open>
  The flat importer takes the number 5 and the text \<open>5\<close> for the same identifier too:
  the second INSERT breaks the primary key, and nothing is committed.
\<close>

lemma import_five_export:
  "fst (import_conversations env0 rt0 c five_export) = Inl IntegrityError \<and>
   f_committed (snd (import_conversations env0 rt0 c five_export)) = f_committed c"
proof -
  define c0 where "c0 = delete_nodes (delete_edges c)"
  have c0: "nodes (f_working c0) = []" "f_committed c0 = f_committed c"
    by (simp_all add: c0_def delete_nodes_def delete_edges_def)
  define jn :: "json \<Rightarrow> json node" where "jn = (\<lambda>v. \<lparr>n_id = v, n_type = lit ''context'',
             n_title = JStr (lit ''Untitled''), n_content = JNull, n_created_at = 0,
             n_updated_at = 0, n_level = 3, n_parent_id = JNull, n_child_count = 0\<rparr>)"
  have un: "py_or JNull (JStr (lit ''Untitled'')) = JStr (lit ''Untitled'')"
    by (simp add: py_or_def)
  have build: "build_rows env0 [JObj [(lit ''uuid'', JInt 5)], JObj [(lit ''uuid'', JStr (lit ''5''))]]
      [] [] = Inr ([jn (JInt 5), jn (JStr (lit ''5''))], [])"
    by (simp add: conv_rows_def five_fields parse_timestamp_env0 un jn_def)
  define r where "r = \<lparr>n_id = SText (lit ''5''), n_type = lit ''context'',
              n_title = SText (lit ''Untitled''), n_content = SNull, n_created_at = 0,
              n_updated_at = 0, n_level = 3, n_parent_id = SNull, n_child_count = 0\<rparr>"
  have b1: "bind_node rt0 (jn (JInt 5)) = Inr r"
    by (simp add: bind_node_def jn_def r_def text_affinity_def str_int_5)
  have b2: "bind_node rt0 (jn (JStr (lit ''5''))) = Inr r"
    by (simp add: bind_node_def jn_def r_def)
  define c1 where "c1 = c0\<lparr>f_working := (f_working c0)\<lparr>nodes := [r]\<rparr>,
      f_log := f_log c0 @ [Insert_node r]\<rparr>"
  have i1: "insert_node rt0 c0 (jn (JInt 5)) = Inr c1"
    unfolding insert_node_def b1 using c0 by (simp add: c1_def r_def)
  have i2: "insert_node rt0 c1 (jn (JStr (lit ''5''))) = Inl IntegrityError"
    unfolding insert_node_def b2 by (simp add: c1_def r_def)
  have en: "executemany_nodes rt0 c0 [jn (JInt 5), jn (JStr (lit ''5''))]
      = Inl (IntegrityError, c1)"
    by (simp add: i1 i2)
  have "import_conversations env0 rt0 c five_export = (Inl IntegrityError, c1)"
    unfolding import_conversations_def Let_def c0_def [symmetric] five_export_def
    by (simp add: build en del: build_rows.simps executemany_nodes.simps)
  then show ?thesis using c0 by (simp add: c1_def)
qed

end
